theory Spec2Isabelle
  imports Main "HOL-Library.Word"
begin

section \<open>Data model\<close>

text \<open>
  The records of \<^verbatim>\<open>@modelcontextprotocol/sdk/shared/auth.js\<close> that the provider reads and
  writes. Values come from \<^verbatim>\<open>JSON.parse\<close> and from HTTP responses, so a field may be
  missing at run time whatever the TypeScript type says: every field the code tests is
  optional here. Only the fields the code touches are kept.
\<close>

record oauth_tokens =
  access_token :: "string option"
  token_type :: "string option"
  expires_in :: "int option"
  refresh_token :: "string option"
  scope :: "string option"

record client_information =
  client_id :: string
  client_secret :: "string option"
  redirect_uris :: "string list option"

record client_metadata =
  client_name :: string
  client_uri :: string
  md_redirect_uris :: "string list"
  grant_types :: "string list"
  response_types :: "string list"
  software_id :: string
  software_version :: string

record server_metadata =
  authorization_endpoint :: string
  token_endpoint :: string
  registration_endpoint :: "string option"

text \<open>
  JavaScript truthiness of an optional string: \<^verbatim>\<open>undefined\<close> and the empty string are
  falsy. \<^verbatim>\<open>a || b\<close> on optional strings is \<open>js_or\<close>.
\<close>

definition truthy :: "string option \<Rightarrow> bool" where
  "truthy v = (case v of None \<Rightarrow> False | Some s \<Rightarrow> s \<noteq> [])"


text \<open>The value a guard \<^verbatim>\<open>if (v) { ... v ... }\<close> lets through.\<close>

definition if_truthy :: "string option \<Rightarrow> string option" where
  "if_truthy v = (if truthy v then v else None)"

section \<open>Credential store (\<^verbatim>\<open>FileTokenStorage\<close>, utils.ts)\<close>

text \<open>
  One directory per server hash under \<^verbatim>\<open>configDir\<close>, holding \<^verbatim>\<open>tokens.json\<close>,
  \<^verbatim>\<open>client_info.json\<close> and \<^verbatim>\<open>code_verifier.txt\<close>. A JSON file is missing, holds text
  that \<^verbatim>\<open>JSON.parse\<close> rejects, or holds a document. The file system is the external
  collaborator: reading a missing file and unlinking a missing file raise \<^verbatim>\<open>ENOENT\<close>,
  parsing a corrupt file raises \<^verbatim>\<open>SyntaxError\<close>; \<^verbatim>\<open>mkdir\<close>, \<^verbatim>\<open>writeFile\<close> and the unlink of an
  existing file are taken to succeed.
\<close>

datatype fs_error = ENOENT | SyntaxError

datatype 'a json_file = Missing | Corrupt | Json 'a

record partition =
  tokens_json :: "oauth_tokens json_file"
  client_info_json :: "client_information json_file"
  code_verifier_txt :: "string option"

type_synonym storage = "string \<Rightarrow> partition"

definition empty_partition :: partition where
  "empty_partition = \<lparr>tokens_json = Missing, client_info_json = Missing, code_verifier_txt = None\<rparr>"

text \<open>\<^verbatim>\<open>JSON.parse(await fs.readFile(path, 'utf-8'))\<close>\<close>

definition read_json :: "'a json_file \<Rightarrow> fs_error + 'a" where
  "read_json f = (case f of Missing \<Rightarrow> Inl ENOENT | Corrupt \<Rightarrow> Inl SyntaxError | Json v \<Rightarrow> Inr v)"

text \<open>\<^verbatim>\<open>await fs.readFile(path, 'utf-8')\<close>\<close>

definition read_text :: "string option \<Rightarrow> fs_error + string" where
  "read_text f = (case f of None \<Rightarrow> Inl ENOENT | Some s \<Rightarrow> Inr s)"

text \<open>\<^verbatim>\<open>await fs.unlink(path)\<close>\<close>

definition unlink_json :: "'a json_file \<Rightarrow> fs_error + 'a json_file" where
  "unlink_json f = (case f of Missing \<Rightarrow> Inl ENOENT | _ \<Rightarrow> Inr Missing)"

definition unlink_text :: "string option \<Rightarrow> fs_error + string option" where
  "unlink_text f = (case f of None \<Rightarrow> Inl ENOENT | Some _ \<Rightarrow> Inr None)"

text \<open>The three getters: \<^verbatim>\<open>try { ... return parsed } catch (error) { return null }\<close>.\<close>

definition getTokens :: "storage \<Rightarrow> string \<Rightarrow> oauth_tokens option" where
  "getTokens s h = (case read_json (tokens_json (s h)) of Inl e \<Rightarrow> None | Inr v \<Rightarrow> Some v)"

definition getClientInfo :: "storage \<Rightarrow> string \<Rightarrow> client_information option" where
  "getClientInfo s h = (case read_json (client_info_json (s h)) of Inl e \<Rightarrow> None | Inr v \<Rightarrow> Some v)"

definition getCodeVerifier :: "storage \<Rightarrow> string \<Rightarrow> string option" where
  "getCodeVerifier s h = (case read_text (code_verifier_txt (s h)) of Inl e \<Rightarrow> None | Inr v \<Rightarrow> Some v)"

text \<open>The three writers: \<^verbatim>\<open>mkdir(dir, {recursive: true})\<close> then \<^verbatim>\<open>writeFile\<close>.\<close>

definition saveTokens_file :: "storage \<Rightarrow> string \<Rightarrow> oauth_tokens \<Rightarrow> storage" where
  "saveTokens_file s h t = s(h := (s h)\<lparr>tokens_json := Json t\<rparr>)"

definition saveClientInfo :: "storage \<Rightarrow> string \<Rightarrow> client_information \<Rightarrow> storage" where
  "saveClientInfo s h c = s(h := (s h)\<lparr>client_info_json := Json c\<rparr>)"

definition saveCodeVerifier_file :: "storage \<Rightarrow> string \<Rightarrow> string \<Rightarrow> storage" where
  "saveCodeVerifier_file s h v = s(h := (s h)\<lparr>code_verifier_txt := Some v\<rparr>)"

text \<open>The three deleters: \<^verbatim>\<open>try { await fs.unlink(path) } catch (error) { }\<close>.\<close>

definition deleteTokens :: "storage \<Rightarrow> string \<Rightarrow> storage" where
  "deleteTokens s h =
     (case unlink_json (tokens_json (s h)) of
        Inl e \<Rightarrow> s
      | Inr f \<Rightarrow> s(h := (s h)\<lparr>tokens_json := f\<rparr>))"

definition deleteClientInfo :: "storage \<Rightarrow> string \<Rightarrow> storage" where
  "deleteClientInfo s h =
     (case unlink_json (client_info_json (s h)) of
        Inl e \<Rightarrow> s
      | Inr f \<Rightarrow> s(h := (s h)\<lparr>client_info_json := f\<rparr>))"

definition deleteCodeVerifier :: "storage \<Rightarrow> string \<Rightarrow> storage" where
  "deleteCodeVerifier s h =
     (case unlink_text (code_verifier_txt (s h)) of
        Inl e \<Rightarrow> s
      | Inr f \<Rightarrow> s(h := (s h)\<lparr>code_verifier_txt := f\<rparr>))"

section \<open>PKCE generator\<close>

text \<open>
  \<^verbatim>\<open>Buffer.toString('base64url')\<close> is the encoding of RFC 4648, section 5, without padding:
  every group of three bytes is read as a 24-bit number and written as four digits of
  six bits each; a last group of one or two bytes is filled with zero bits up to the next
  multiple of six and written as two or three digits.
\<close>

type_synonym byte = "8 word"

definition base64url_alphabet :: string where
  "base64url_alphabet = ''ABCDEFGHIJKLMNOPQRSTUVWXYZabcdefghijklmnopqrstuvwxyz0123456789-_''"

definition base64url_digit :: "nat \<Rightarrow> char" where
  "base64url_digit i = base64url_alphabet ! i"

fun base64url :: "byte list \<Rightarrow> string" where
  "base64url (a # b # c # bs) =
     (let n = unat a * 65536 + unat b * 256 + unat c in
      base64url_digit (n div 262144) # base64url_digit (n div 4096 mod 64) #
      base64url_digit (n div 64 mod 64) # base64url_digit (n mod 64) # base64url bs)"
| "base64url [a, b] =
     (let n = (unat a * 256 + unat b) * 4 in
      [base64url_digit (n div 4096), base64url_digit (n div 64 mod 64), base64url_digit (n mod 64)])"
| "base64url [a] =
     (let n = unat a * 16 in [base64url_digit (n div 64), base64url_digit (n mod 64)])"
| "base64url [] = []"

text \<open>\<^verbatim>\<open>hash.update(verifier)\<close> feeds the string's UTF-8 bytes to the hash.\<close>

definition utf8 :: "string \<Rightarrow> byte list" where
  "utf8 s = map (\<lambda>c. of_nat (of_char c)) s"

record pkce =
  challenge :: string
  verifier :: string

text \<open>
  \<^verbatim>\<open>generatePKCEChallenge\<close>. The two functions of Node's \<^verbatim>\<open>crypto\<close> module are parameters:
  \<open>rnd\<close> is \<^verbatim>\<open>crypto.randomBytes\<close> (the bytes it delivers for a requested length) and
  \<open>sha\<close> is the SHA-256 digest.
\<close>

definition generatePKCEChallenge :: "(nat \<Rightarrow> byte list) \<Rightarrow> (byte list \<Rightarrow> byte list) \<Rightarrow> pkce" where
  "generatePKCEChallenge rnd sha =
     (let v = base64url (rnd 32);
          c = base64url (sha (utf8 v))
      in \<lparr>challenge = c, verifier = v\<rparr>)"

text \<open>
  The unreserved characters of RFC 3986 (letters, digits, \<^verbatim>\<open>-\<close>, \<^verbatim>\<open>.\<close>, \<^verbatim>\<open>_\<close>, \<^verbatim>\<open>~\<close>), which
  need no escaping in a URL, and the check an authorization server makes for method
  \<^verbatim>\<open>S256\<close> (RFC 7636, sections 4.1 and 4.6): the verifier has 43 to 128 unreserved
  characters and the challenge is the unpadded base64url text of its SHA-256 digest.
\<close>

definition unreserved :: "char \<Rightarrow> bool" where
  "unreserved c =
     (let n = (of_char c :: nat) in
      (65 \<le> n \<and> n \<le> 90) \<or> (97 \<le> n \<and> n \<le> 122) \<or> (48 \<le> n \<and> n \<le> 57) \<or>
      n = 45 \<or> n = 46 \<or> n = 95 \<or> n = 126)"

definition validate_S256 :: "(byte list \<Rightarrow> byte list) \<Rightarrow> string \<Rightarrow> string \<Rightarrow> bool" where
  "validate_S256 sha code_challenge code_verifier =
     (43 \<le> length code_verifier \<and> length code_verifier \<le> 128 \<and>
      list_all unreserved code_verifier \<and>
      base64url (sha (utf8 code_verifier)) = code_challenge)"

section \<open>Callback listener (oauth-server.ts)\<close>

text \<open>
  A request as the handler sees it: \<^verbatim>\<open>req.url\<close> is the request target as it came over the
  wire, or is missing. \<^verbatim>\<open>new URL(req.url, base)\<close> is the platform's URL parser, a parameter
  \<open>url\<close> of the handler: it throws a \<^verbatim>\<open>TypeError\<close> with code \<^verbatim>\<open>ERR_INVALID_URL\<close> (\<open>None\<close>) or
  gives a path and the query parameters in order. \<^verbatim>\<open>searchParams.get\<close> returns the first
  value of a key.
\<close>

record target =
  pathname :: string
  query :: "(string \<times> string) list"

record request =
  req_url :: "string option"

datatype thrown = ERR_INVALID_URL

datatype page =
    Plain string
  | Html string "string list"

record response =
  status :: nat
  content_type :: "string option"
  page :: page

datatype signal = AuthCode string | AuthError string

text \<open>
  The request handler that \<^verbatim>\<open>createOAuthCallbackServer\<close> installs, for \<^verbatim>\<open>options.path = path\<close>.
  The call of \<^verbatim>\<open>new URL\<close> is in no \<^verbatim>\<open>try\<close> block: when it throws, the handler throws, and
  no response is written (\<open>Inl\<close>).
\<close>

definition requestHandler ::
  "(string \<Rightarrow> target option) \<Rightarrow> string \<Rightarrow> request \<Rightarrow> thrown + response \<times> signal option" where
  "requestHandler url path req =
     (case if_truthy (req_url req) of
        None \<Rightarrow> Inr (\<lparr>status = 400, content_type = None, page = Plain ''Bad Request''\<rparr>, None)
      | Some t \<Rightarrow>
          (case url t of
             None \<Rightarrow> Inl ERR_INVALID_URL
           | Some u \<Rightarrow>
               if pathname u = path then
                 (case if_truthy (map_of (query u) ''error'') of
                    Some err \<Rightarrow>
                      Inr (\<lparr>status = 400, content_type = Some ''text/html'',
                            page = Html ''Authentication Failed''
                                     [''Error: '' @ err, ''You can close this window.'']\<rparr>,
                           Some (AuthError err))
                  | None \<Rightarrow>
                      (case if_truthy (map_of (query u) ''code'') of
                         Some code \<Rightarrow>
                           Inr (\<lparr>status = 200, content_type = Some ''text/html'',
                                 page = Html ''Authentication Successful''
                                          [''You can close this window and return to the application.'']\<rparr>,
                                Some (AuthCode code))
                       | None \<Rightarrow>
                           Inr (\<lparr>status = 400, content_type = Some ''text/html'',
                                 page = Html ''Authentication Failed''
                                          [''No authorization code received.'',
                                           ''You can close this window.'']\<rparr>,
                                None)))
               else Inr (\<lparr>status = 404, content_type = None, page = Plain ''Not Found''\<rparr>, None)))"

text \<open>
  What a sequence of requests makes of the wait for the redirect: the first signal the
  handler emits, if any (\<open>Inr\<close>), unless the handler throws on an earlier request (\<open>Inl\<close>).
\<close>

fun first_signal ::
  "(string \<Rightarrow> target option) \<Rightarrow> string \<Rightarrow> request list \<Rightarrow> thrown + signal option" where
  "first_signal url path [] = Inr None"
| "first_signal url path (r # rs) =
     (case requestHandler url path r of
        Inl x \<Rightarrow> Inl x
      | Inr (res, Some s) \<Rightarrow> Inr (Some s)
      | Inr (res, None) \<Rightarrow> first_signal url path rs)"

section \<open>The provider (OAuthClientProvider.ts)\<close>

subsection \<open>State, environment, effects\<close>

text \<open>
  \<^verbatim>\<open>this.options\<close> as the constructor stores it, with the defaults filled in.
\<close>

record provider_options =
  serverUrl :: string
  callbackPort :: nat
  host :: string
  callbackPath :: string
  clientName :: string
  clientUri :: string
  softwareId :: string
  softwareVersion :: string
  staticOAuthClientMetadata :: "client_metadata option"
  staticOAuthClientInfo :: "client_information option"
  authorizeResource :: "string option"
  autoAuthenticate :: bool

text \<open>
  Every thrown \<^verbatim>\<open>Error\<close> of the provider, by its message; the text a wrapped cause
  contributes is the constructor's argument. \<open>TypeError\<close> is the engine's error for
  reading a property of \<^verbatim>\<open>undefined\<close>. \<open>Uncaught\<close> is an exception that left the request
  handler: nothing catches it, the process ends there, and the attempt ends with it.
\<close>

datatype error =
    DiscoveryFailed string
  | NoRegistrationEndpoint
  | RegistrationFailed string
  | ListenFailed string
  | MissingDiscoveryOrClient
  | OpenFailed string
  | AuthenticationTimeout
  | AuthenticationError string
  | ExchangeFailed string
  | RefreshFailed string
  | NoCodeVerifier
  | TypeError
  | Uncaught thrown

text \<open>
  What the provider does to the outside world, in order: HTTP requests through axios, the
  listener's bind and close, the browser launch, reads, writes and unlinks of the three
  files, and draws of random bytes.
\<close>

record auth_url =
  endpoint :: string
  searchParams :: "(string \<times> string) list"

datatype http_body = JsonBody client_metadata | FormBody "(string \<times> string) list"

datatype file_kind = TokensFile | ClientInfoFile | CodeVerifierFile

datatype effect =
    HttpGet string string
  | HttpPost string http_body
  | Listen nat
  | Close
  | OpenBrowser auth_url
  | FsRead file_kind
  | FsWrite file_kind
  | FsUnlink file_kind
  | RandomBytes nat

datatype server_status = Listening | Closed

text \<open>
  The instance fields, the promises it has created (\<open>None\<close> while pending, then the
  outcome), the \<^verbatim>\<open>once\<close> listeners registered on \<^verbatim>\<open>this.events\<close>, the file system under
  \<^verbatim>\<open>configDir\<close>, and the effects so far.
\<close>

record provider =
  options :: provider_options
  serverUrlHash :: string
  authServer :: "server_status option"
  authenticationPromise :: "nat option"
  authInitialized :: bool
  discoveryDocument :: "server_metadata option"
  clientInfo :: "client_information option"
  priv_codeVerifier :: "string option"
  promises :: "(error + unit) option list"
  listeners :: "string list"
  storage :: storage
  trace :: "effect list"

text \<open>
  What the outside world answers during one call: the discovery and registration
  responses (\<open>Inl\<close> is the text of the error axios throws), whether the bind fails, the two
  crypto functions, whether the browser launch rejects, the platform's URL parser, the
  requests that reach the listener before the five-minute timer fires, and the token
  endpoint's response.
\<close>

record env =
  discovery_response :: "string + server_metadata"
  registration_response :: "string + client_information"
  listen_error :: "string option"
  randomBytes :: "nat \<Rightarrow> byte list"
  sha256 :: "byte list \<Rightarrow> byte list"
  open_error :: "string option"
  new_URL :: "string \<Rightarrow> target option"
  callback_requests :: "request list"
  token_response :: "string + oauth_tokens"

definition effect :: "effect \<Rightarrow> provider \<Rightarrow> provider" where
  "effect e st = st\<lparr>trace := trace st @ [e]\<rparr>"

text \<open>The constructor: no server, no promise, empty caches.\<close>

definition new_provider :: "provider_options \<Rightarrow> string \<Rightarrow> storage \<Rightarrow> provider" where
  "new_provider opts hash disk =
     \<lparr>options = opts, serverUrlHash = hash, authServer = None, authenticationPromise = None,
      authInitialized = False, discoveryDocument = None, clientInfo = None,
      priv_codeVerifier = None, promises = [], listeners = [], storage = disk, trace = []\<rparr>"

text \<open>Decimal text of a number and the \<^verbatim>\<open>redirectUrl\<close> getter.\<close>

fun decimal :: "nat \<Rightarrow> string" where
  "decimal n = (if n < 10 then [char_of (48 + n)] else decimal (n div 10) @ [char_of (48 + n mod 10)])"

definition redirectUrl :: "provider \<Rightarrow> string" where
  "redirectUrl st =
     ''http://'' @ host (options st) @ '':'' @ decimal (callbackPort (options st)) @
     callbackPath (options st)"

definition clientMetadata :: "provider \<Rightarrow> client_metadata" where
  "clientMetadata st =
     (case staticOAuthClientMetadata (options st) of
        Some m \<Rightarrow> m
      | None \<Rightarrow>
          \<lparr>client_name = clientName (options st), client_uri = clientUri (options st),
           md_redirect_uris = [redirectUrl st],
           grant_types = [''authorization_code'', ''refresh_token''],
           response_types = [''code''],
           software_id = softwareId (options st),
           software_version = softwareVersion (options st)\<rparr>)"

subsection \<open>Storage-backed accessors\<close>

definition clientInformation :: "provider \<Rightarrow> client_information option \<times> provider" where
  "clientInformation st =
     (case clientInfo st of
        Some c \<Rightarrow> (Some c, st)
      | None \<Rightarrow>
          (let st1 = effect (FsRead ClientInfoFile) st;
               c = getClientInfo (storage st1) (serverUrlHash st1)
           in (c, st1\<lparr>clientInfo := c\<rparr>)))"

definition saveClientInformation :: "client_information \<Rightarrow> provider \<Rightarrow> provider" where
  "saveClientInformation c st =
     (let st1 = effect (FsWrite ClientInfoFile) (st\<lparr>clientInfo := Some c\<rparr>)
      in st1\<lparr>storage := saveClientInfo (storage st1) (serverUrlHash st1) c\<rparr>)"

definition saveTokens :: "oauth_tokens \<Rightarrow> provider \<Rightarrow> provider" where
  "saveTokens t st =
     (let st1 = effect (FsWrite TokensFile) st
      in st1\<lparr>storage := saveTokens_file (storage st1) (serverUrlHash st1) t\<rparr>)"

definition saveCodeVerifier :: "string \<Rightarrow> provider \<Rightarrow> provider" where
  "saveCodeVerifier v st =
     (let st1 = effect (FsWrite CodeVerifierFile) (st\<lparr>priv_codeVerifier := Some v\<rparr>)
      in st1\<lparr>storage := saveCodeVerifier_file (storage st1) (serverUrlHash st1) v\<rparr>)"

definition codeVerifier :: "provider \<Rightarrow> (error + string) \<times> provider" where
  "codeVerifier st =
     (case if_truthy (priv_codeVerifier st) of
        Some v \<Rightarrow> (Inr v, st)
      | None \<Rightarrow>
          (let st1 = effect (FsRead CodeVerifierFile) st;
               v = if_truthy (getCodeVerifier (storage st1) (serverUrlHash st1));
               st2 = st1\<lparr>priv_codeVerifier := v\<rparr>
           in case v of
                None \<Rightarrow> (Inl NoCodeVerifier, st2)
              | Some w \<Rightarrow> (Inr w, st2)))"

text \<open>Reading \<^verbatim>\<open>tokens.json\<close> through \<^verbatim>\<open>this.tokenStorage.getTokens(this.serverUrlHash)\<close>.\<close>

definition readTokens :: "provider \<Rightarrow> oauth_tokens option \<times> provider" where
  "readTokens st =
     (let st1 = effect (FsRead TokensFile) st
      in (getTokens (storage st1) (serverUrlHash st1), st1))"

datatype scope = ScopeAll | ScopeClient | ScopeTokens | ScopeVerifier

definition invalidateCredentials :: "scope \<Rightarrow> provider \<Rightarrow> provider" where
  "invalidateCredentials sc st =
     (let h = serverUrlHash st in
      case sc of
        ScopeAll \<Rightarrow>
          (let st1 = (effect (FsUnlink TokensFile) st)\<lparr>storage := deleteTokens (storage st) h\<rparr>;
               st2 = (effect (FsUnlink ClientInfoFile) st1)\<lparr>storage := deleteClientInfo (storage st1) h\<rparr>;
               st3 = (effect (FsUnlink CodeVerifierFile) st2)\<lparr>storage := deleteCodeVerifier (storage st2) h\<rparr>
           in st3\<lparr>clientInfo := None, priv_codeVerifier := None\<rparr>)
      | ScopeClient \<Rightarrow>
          ((effect (FsUnlink ClientInfoFile) st)\<lparr>storage := deleteClientInfo (storage st) h\<rparr>)
            \<lparr>clientInfo := None\<rparr>
      | ScopeTokens \<Rightarrow>
          (effect (FsUnlink TokensFile) st)\<lparr>storage := deleteTokens (storage st) h\<rparr>
      | ScopeVerifier \<Rightarrow>
          ((effect (FsUnlink CodeVerifierFile) st)\<lparr>storage := deleteCodeVerifier (storage st) h\<rparr>)
            \<lparr>priv_codeVerifier := None\<rparr>)"

subsection \<open>The stages of the flow\<close>

definition discoverOAuthEndpoints :: "env \<Rightarrow> provider \<Rightarrow> (error + unit) \<times> provider" where
  "discoverOAuthEndpoints ev st =
     (let st1 = effect (HttpGet ''/.well-known/oauth-authorization-server'' (serverUrl (options st))) st
      in case discovery_response ev of
           Inl m \<Rightarrow> (Inl (DiscoveryFailed m), st1)
         | Inr d \<Rightarrow> (Inr (), st1\<lparr>discoveryDocument := Some d\<rparr>))"

text \<open>\<^verbatim>\<open>this.discoveryDocument?.registration_endpoint\<close>\<close>

definition discovered_registration_endpoint :: "provider \<Rightarrow> string option" where
  "discovered_registration_endpoint st =
     (case discoveryDocument st of
        None \<Rightarrow> None
      | Some d \<Rightarrow> registration_endpoint d)"

definition registerClient :: "env \<Rightarrow> provider \<Rightarrow> (error + unit) \<times> provider" where
  "registerClient ev st =
     (case staticOAuthClientInfo (options st) of
        Some c \<Rightarrow> (Inr (), st\<lparr>clientInfo := Some c\<rparr>)
      | None \<Rightarrow>
          (case clientInformation st of
             (Some c, st1) \<Rightarrow> (Inr (), st1\<lparr>clientInfo := Some c\<rparr>)
           | (None, st1) \<Rightarrow>
               (case if_truthy (discovered_registration_endpoint st1) of
                  None \<Rightarrow> (Inl NoRegistrationEndpoint, st1)
                | Some ep \<Rightarrow>
                    (let st2 = effect (HttpPost ep (JsonBody (clientMetadata st1))) st1
                     in case registration_response ev of
                          Inl m \<Rightarrow> (Inl (RegistrationFailed m), st2)
                        | Inr c \<Rightarrow> (Inr (), saveClientInformation c (st2\<lparr>clientInfo := Some c\<rparr>))))))"

text \<open>
  \<^verbatim>\<open>initializeAuth\<close>: \<^verbatim>\<open>createOAuthCallbackServer\<close> binds the port and resolves with the
  server, or rejects with the server's \<^verbatim>\<open>error\<close> event. The \<^verbatim>\<open>AuthState\<close> it returns holds
  the closure \<open>waitForAuthCode\<close> below.
\<close>

definition initializeAuth :: "env \<Rightarrow> provider \<Rightarrow> (error + unit) \<times> provider" where
  "initializeAuth ev st =
     (let st1 = effect (Listen (callbackPort (options st))) st
      in case listen_error ev of
           Some m \<Rightarrow> (Inl (ListenFailed m), st1)
         | None \<Rightarrow> (Inr (), st1\<lparr>authServer := Some Listening\<rparr>))"

text \<open>
  \<^verbatim>\<open>waitForAuthCode\<close>: registers the two \<^verbatim>\<open>once\<close> listeners and the timer, then settles with
  the first signal the handler emits; an emitted signal removes the \<^verbatim>\<open>once\<close> listeners of
  its name. With no signal the timer fires. A request on which the handler throws ends the
  wait, and everything else, before that.
\<close>

definition waitForAuthCode :: "env \<Rightarrow> provider \<Rightarrow> (error + string) \<times> provider" where
  "waitForAuthCode ev st =
     (let st1 = st\<lparr>listeners := listeners st @ [''auth-code'', ''auth-error'']\<rparr>
      in case first_signal (new_URL ev) (callbackPath (options st)) (callback_requests ev) of
           Inl x \<Rightarrow> (Inl (Uncaught x), st1)
         | Inr None \<Rightarrow> (Inl AuthenticationTimeout, st1)
         | Inr (Some (AuthCode code)) \<Rightarrow>
             (Inr code, st1\<lparr>listeners := removeAll ''auth-code'' (listeners st1)\<rparr>)
         | Inr (Some (AuthError err)) \<Rightarrow>
             (Inl (AuthenticationError err), st1\<lparr>listeners := removeAll ''auth-error'' (listeners st1)\<rparr>))"

text \<open>
  \<^verbatim>\<open>clientInfo.redirect_uris[0]\<close>: a \<^verbatim>\<open>TypeError\<close> when the list is missing, \<^verbatim>\<open>undefined\<close>
  when it is empty. \<open>js_string\<close> is the text \<^verbatim>\<open>URLSearchParams\<close> stores for a value.
\<close>

definition first_redirect_uri :: "client_information \<Rightarrow> error + string option" where
  "first_redirect_uri c =
     (case redirect_uris c of
        None \<Rightarrow> Inl TypeError
      | Some [] \<Rightarrow> Inr None
      | Some (u # us) \<Rightarrow> Inr (Some u))"

definition js_string :: "string option \<Rightarrow> string" where
  "js_string v = (case v of None \<Rightarrow> ''undefined'' | Some s \<Rightarrow> s)"

text \<open>\<^verbatim>\<open>url.searchParams.set(k, v)\<close>: replaces the value of an existing key, else appends.\<close>

definition searchParams_set :: "string \<Rightarrow> string \<Rightarrow> auth_url \<Rightarrow> auth_url" where
  "searchParams_set k v u =
     u\<lparr>searchParams :=
         (if k \<in> fst ` set (searchParams u)
          then map (\<lambda>(k', v'). if k' = k then (k', v) else (k', v')) (searchParams u)
          else searchParams u @ [(k, v)])\<rparr>"

text \<open>The optional \<^verbatim>\<open>client_secret\<close> entry of a token request.\<close>

definition secret_param :: "client_information \<Rightarrow> (string \<times> string) list" where
  "secret_param c =
     (case if_truthy (client_secret c) of
        None \<Rightarrow> []
      | Some sec \<Rightarrow> [(''client_secret'', sec)])"

definition exchangeCodeForTokens ::
  "env \<Rightarrow> string \<Rightarrow> string \<Rightarrow> provider \<Rightarrow> (error + unit) \<times> provider" where
  "exchangeCodeForTokens ev code code_verifier st =
     (case (discoveryDocument st, clientInfo st) of
        (Some d, Some c) \<Rightarrow>
          (case first_redirect_uri c of
             Inl e \<Rightarrow> (Inl e, st)
           | Inr ru \<Rightarrow>
               (let tokenData =
                      [(''grant_type'', ''authorization_code''), (''code'', code),
                       (''redirect_uri'', js_string ru), (''client_id'', client_id c),
                       (''code_verifier'', code_verifier)] @ secret_param c;
                    st1 = effect (HttpPost (token_endpoint d) (FormBody tokenData)) st
                in case token_response ev of
                     Inl m \<Rightarrow> (Inl (ExchangeFailed m), st1)
                   | Inr t \<Rightarrow> (Inr (), saveTokens t st1)))
      | _ \<Rightarrow> (Inl MissingDiscoveryOrClient, st))"

text \<open>
  The authorization URL that \<^verbatim>\<open>performAuthorizationCodeFlow\<close> builds, given the challenge
  and the value of \<^verbatim>\<open>redirect_uris[0]\<close>.
\<close>

definition authorizationUrl ::
  "provider \<Rightarrow> server_metadata \<Rightarrow> client_information \<Rightarrow> string \<Rightarrow> string option \<Rightarrow> auth_url" where
  "authorizationUrl st d c code_challenge ru =
     (let u = searchParams_set ''code_challenge_method'' ''S256''
                (searchParams_set ''code_challenge'' code_challenge
                   (searchParams_set ''redirect_uri'' (js_string ru)
                      (searchParams_set ''response_type'' ''code''
                         (searchParams_set ''client_id'' (client_id c)
                            \<lparr>endpoint = authorization_endpoint d, searchParams = []\<rparr>))))
      in case if_truthy (authorizeResource (options st)) of
           None \<Rightarrow> u
         | Some r \<Rightarrow> searchParams_set ''resource'' r u)"

definition performAuthorizationCodeFlow :: "env \<Rightarrow> provider \<Rightarrow> (error + unit) \<times> provider" where
  "performAuthorizationCodeFlow ev st =
     (case (discoveryDocument st, clientInfo st) of
        (Some d, Some c) \<Rightarrow>
          (let pk = generatePKCEChallenge (randomBytes ev) (sha256 ev);
               st1 = saveCodeVerifier (verifier pk) (effect (RandomBytes 32) st)
           in case first_redirect_uri c of
                Inl e \<Rightarrow> (Inl e, st1)
              | Inr ru \<Rightarrow>
                  (let st2 = effect (OpenBrowser (authorizationUrl st d c (challenge pk) ru)) st1
                   in case open_error ev of
                        Some m \<Rightarrow> (Inl (OpenFailed m), st2)
                      | None \<Rightarrow>
                          (case waitForAuthCode ev st2 of
                             (Inl e, st3) \<Rightarrow> (Inl e, st3)
                           | (Inr authCode, st3) \<Rightarrow>
                               exchangeCodeForTokens ev authCode (verifier pk) st3)))
      | _ \<Rightarrow> (Inl MissingDiscoveryOrClient, st))"

subsection \<open>The orchestrator\<close>

text \<open>
  \<^verbatim>\<open>_performAuthentication\<close>: the four stages in order; the \<^verbatim>\<open>catch\<close> block logs and
  rethrows the same error.
\<close>

definition performAuthentication :: "env \<Rightarrow> provider \<Rightarrow> (error + unit) \<times> provider" where
  "performAuthentication ev st =
     (case discoverOAuthEndpoints ev st of
        (Inl e, st1) \<Rightarrow> (Inl e, st1)
      | (Inr _, st1) \<Rightarrow>
          (case registerClient ev st1 of
             (Inl e, st2) \<Rightarrow> (Inl e, st2)
           | (Inr _, st2) \<Rightarrow>
               (case initializeAuth ev st2 of
                  (Inl e, st3) \<Rightarrow> (Inl e, st3)
                | (Inr _, st3) \<Rightarrow>
                    (case performAuthorizationCodeFlow ev st3 of
                       (Inl e, st4) \<Rightarrow> (Inl e, st4)
                     | (Inr _, st4) \<Rightarrow> (Inr (), st4\<lparr>authInitialized := True\<rparr>)))))"

text \<open>
  What an async method hands to its caller when it runs without interleaving: a value, a
  thrown error, or a promise that is still another call's to settle.
\<close>

datatype 'a completion = Returned 'a | Threw error | Awaits nat

definition has_access_token :: "oauth_tokens option \<Rightarrow> bool" where
  "has_access_token r = (case r of None \<Rightarrow> False | Some t \<Rightarrow> truthy (access_token t))"

text \<open>Creating a pending promise, and settling one.\<close>

definition new_promise :: "provider \<Rightarrow> nat \<times> provider" where
  "new_promise st = (length (promises st), st\<lparr>promises := promises st @ [None]\<rparr>)"

definition settle :: "nat \<Rightarrow> error + unit \<Rightarrow> provider \<Rightarrow> provider" where
  "settle p r st = st\<lparr>promises := (promises st)[p := Some r]\<rparr>"

definition completion_of :: "error + unit \<Rightarrow> unit completion" where
  "completion_of r = (case r of Inl e \<Rightarrow> Threw e | Inr _ \<Rightarrow> Returned ())"

text \<open>The provider as \<^verbatim>\<open>ensureAuthenticated\<close> hands it to \<^verbatim>\<open>_performAuthentication\<close>.\<close>

definition begin_attempt :: "provider \<Rightarrow> provider" where
  "begin_attempt st = (case new_promise st of (p, st1) \<Rightarrow> st1\<lparr>authenticationPromise := Some p\<rparr>)"

definition ensureAuthenticated :: "env \<Rightarrow> provider \<Rightarrow> unit completion \<times> provider" where
  "ensureAuthenticated ev st =
     (case readTokens st of
        (existingTokens, st1) \<Rightarrow>
          if has_access_token existingTokens then (Returned (), st1)
          else
            (case authenticationPromise st1 of
               Some p \<Rightarrow> (Awaits p, st1)
             | None \<Rightarrow>
                 (case new_promise st1 of
                    (p, st2) \<Rightarrow>
                      (case performAuthentication ev (st2\<lparr>authenticationPromise := Some p\<rparr>) of
                         (r, st3) \<Rightarrow>
                           (completion_of r, (settle p r st3)\<lparr>authenticationPromise := None\<rparr>)))))"

definition tokens :: "env \<Rightarrow> provider \<Rightarrow> oauth_tokens option completion \<times> provider" where
  "tokens ev st =
     (if authenticationPromise st \<noteq> None then (Returned None, st)
      else
        (case readTokens st of
           (existingTokens, st1) \<Rightarrow>
             if existingTokens = None \<and> autoAuthenticate (options st1) \<and> \<not> authInitialized st1 then
               (case ensureAuthenticated ev st1 of
                  (Returned _, st2) \<Rightarrow>
                    (case readTokens st2 of (newTokens, st3) \<Rightarrow> (Returned newTokens, st3))
                | (Threw e, st2) \<Rightarrow> (Threw e, st2)
                | (Awaits p, st2) \<Rightarrow> (Awaits p, st2))
             else (Returned existingTokens, st1)))"



subsection \<open>Concurrent calls of \<^verbatim>\<open>ensureAuthenticated\<close>\<close>

text \<open>
  JavaScript runs one continuation at a time and switches only at an \<^verbatim>\<open>await\<close>. A call of
  \<^verbatim>\<open>ensureAuthenticated\<close> is therefore a sequence of atomic pieces:
  \<^item> the call itself, which issues the read of \<^verbatim>\<open>tokens.json\<close> (\<open>Invoked\<close>);
  \<^item> the read, whenever the file system performs it (\<open>TokensRead\<close>);
  \<^item> the continuation after \<^verbatim>\<open>await getTokens\<close>: the token test, the test of
    \<^verbatim>\<open>this.authenticationPromise\<close> and, with neither, the creation of the promise, all
    without an \<^verbatim>\<open>await\<close> in between;
  \<^item> for the call that created the promise, the four awaited stages of
    \<^verbatim>\<open>_performAuthentication\<close>, each completed when the outside world answers, and then the
    \<^verbatim>\<open>finally\<close> block;
  \<^item> for a call that returned the promise of another, the adoption of its outcome.
  \<open>Completed\<close> remembers how the call ended.
\<close>

datatype stage = Discovering | Registering | Initializing | Authorizing

datatype origin = HadToken | Owned nat | Shared nat

datatype pc =
    Invoked
  | TokensRead "oauth_tokens option"
  | Performing nat stage
  | Settled nat
  | Sharing nat
  | Completed origin "error + unit"

record system =
  prov :: provider
  calls :: "pc list"

datatype event =
    Call
  | ReadDone nat
  | Resume nat
  | Advance nat env
  | Finally nat
  | Adopt nat

definition stage_step :: "stage \<Rightarrow> env \<Rightarrow> provider \<Rightarrow> (error + unit) \<times> provider" where
  "stage_step g ev st =
     (case g of
        Discovering \<Rightarrow> discoverOAuthEndpoints ev st
      | Registering \<Rightarrow> registerClient ev st
      | Initializing \<Rightarrow> initializeAuth ev st
      | Authorizing \<Rightarrow> performAuthorizationCodeFlow ev st)"

definition next_stage :: "stage \<Rightarrow> stage option" where
  "next_stage g =
     (case g of
        Discovering \<Rightarrow> Some Registering
      | Registering \<Rightarrow> Some Initializing
      | Initializing \<Rightarrow> Some Authorizing
      | Authorizing \<Rightarrow> None)"

definition pc_at :: "system \<Rightarrow> nat \<Rightarrow> pc option" where
  "pc_at sy k = (if k < length (calls sy) then Some (calls sy ! k) else None)"

definition promise_at :: "provider \<Rightarrow> nat \<Rightarrow> (error + unit) option" where
  "promise_at st p = (if p < length (promises st) then promises st ! p else None)"

definition goto :: "nat \<Rightarrow> pc \<Rightarrow> provider \<Rightarrow> system \<Rightarrow> system" where
  "goto k c st sy = \<lparr>prov = st, calls = (calls sy)[k := c]\<rparr>"

fun exec :: "event \<Rightarrow> system \<Rightarrow> system" where
  "exec Call sy = sy\<lparr>calls := calls sy @ [Invoked]\<rparr>"
| "exec (ReadDone k) sy =
     (case pc_at sy k of
        Some Invoked \<Rightarrow>
          (case readTokens (prov sy) of (existingTokens, st1) \<Rightarrow> goto k (TokensRead existingTokens) st1 sy)
      | _ \<Rightarrow> sy)"
| "exec (Resume k) sy =
     (case pc_at sy k of
        Some (TokensRead existingTokens) \<Rightarrow>
          if has_access_token existingTokens then goto k (Completed HadToken (Inr ())) (prov sy) sy
          else
            (case authenticationPromise (prov sy) of
               Some p \<Rightarrow> goto k (Sharing p) (prov sy) sy
             | None \<Rightarrow>
                 (case new_promise (prov sy) of
                    (p, st1) \<Rightarrow>
                      goto k (Performing p Discovering) (st1\<lparr>authenticationPromise := Some p\<rparr>) sy))
      | _ \<Rightarrow> sy)"
| "exec (Advance k ev) sy =
     (case pc_at sy k of
        Some (Performing p g) \<Rightarrow>
          (case stage_step g ev (prov sy) of
             (Inl e, st1) \<Rightarrow> goto k (Settled p) (settle p (Inl e) st1) sy
           | (Inr _, st1) \<Rightarrow>
               (case next_stage g of
                  Some g' \<Rightarrow> goto k (Performing p g') st1 sy
                | None \<Rightarrow> goto k (Settled p) (settle p (Inr ()) (st1\<lparr>authInitialized := True\<rparr>)) sy))
      | _ \<Rightarrow> sy)"
| "exec (Finally k) sy =
     (case pc_at sy k of
        Some (Settled p) \<Rightarrow>
          (case promise_at (prov sy) p of
             Some r \<Rightarrow> goto k (Completed (Owned p) r) ((prov sy)\<lparr>authenticationPromise := None\<rparr>) sy
           | None \<Rightarrow> sy)
      | _ \<Rightarrow> sy)"
| "exec (Adopt k) sy =
     (case pc_at sy k of
        Some (Sharing p) \<Rightarrow>
          (case promise_at (prov sy) p of
             Some r \<Rightarrow> goto k (Completed (Shared p) r) (prov sy) sy
           | None \<Rightarrow> sy)
      | _ \<Rightarrow> sy)"

definition run :: "event list \<Rightarrow> system \<Rightarrow> system" where
  "run es sy = fold exec es sy"

definition start :: "provider \<Rightarrow> system" where
  "start st = \<lparr>prov = st, calls = []\<rparr>"

text \<open>The calls with an attempt of their own in progress, and the four counted effects.\<close>

definition in_flight :: "system \<Rightarrow> nat \<Rightarrow> bool" where
  "in_flight sy k = (case pc_at sy k of Some (Performing p g) \<Rightarrow> True | _ \<Rightarrow> False)"

definition is_discovery :: "effect \<Rightarrow> bool" where
  "is_discovery e = (case e of HttpGet a b \<Rightarrow> True | _ \<Rightarrow> False)"

definition is_registration :: "effect \<Rightarrow> bool" where
  "is_registration e = (case e of HttpPost a (JsonBody b) \<Rightarrow> True | _ \<Rightarrow> False)"

definition is_bind :: "effect \<Rightarrow> bool" where
  "is_bind e = (case e of Listen a \<Rightarrow> True | _ \<Rightarrow> False)"

definition is_token_request :: "effect \<Rightarrow> bool" where
  "is_token_request e = (case e of HttpPost a (FormBody b) \<Rightarrow> True | _ \<Rightarrow> False)"

definition is_network :: "effect \<Rightarrow> bool" where
  "is_network e = (is_discovery e \<or> is_registration e \<or> is_bind e \<or> is_token_request e)"

definition count :: "(effect \<Rightarrow> bool) \<Rightarrow> provider \<Rightarrow> nat" where
  "count P st = length (filter P (trace st))"

text \<open>The URLs the browser was opened with, and the form bodies sent to a token endpoint.\<close>

definition opened_urls :: "effect list \<Rightarrow> auth_url list" where
  "opened_urls es = concat (map (\<lambda>e. case e of OpenBrowser u \<Rightarrow> [u] | _ \<Rightarrow> []) es)"

definition token_requests :: "effect list \<Rightarrow> (string \<times> string) list list" where
  "token_requests es =
     concat (map (\<lambda>e. case e of HttpPost a (FormBody ps) \<Rightarrow> [ps] | _ \<Rightarrow> []) es)"

subsection \<open>What the interleavings preserve\<close>

text \<open>
  Call \<open>k\<close> owns promise \<open>p\<close> while it runs the attempt behind \<open>p\<close> or has settled it
  without having run its \<^verbatim>\<open>finally\<close> block. The invariant of the promise bookkeeping: an
  owner's promise is the one stored in \<^verbatim>\<open>this.authenticationPromise\<close>; there is at most one
  owner; the promise of a running attempt is pending and that of a settled one is not; a
  completed call carries the outcome its promise was settled with.
\<close>

definition owns :: "system \<Rightarrow> nat \<Rightarrow> nat \<Rightarrow> bool" where
  "owns sy k p = (case pc_at sy k of
                    Some (Performing q g) \<Rightarrow> q = p
                  | Some (Settled q) \<Rightarrow> q = p
                  | _ \<Rightarrow> False)"

definition attempt_inv :: "system \<Rightarrow> bool" where
  "attempt_inv sy \<longleftrightarrow>
     (\<forall>k p. owns sy k p \<longrightarrow> authenticationPromise (prov sy) = Some p) \<and>
     (\<forall>k k' p p'. owns sy k p \<and> owns sy k' p' \<longrightarrow> k = k') \<and>
     (\<forall>k p g. pc_at sy k = Some (Performing p g) \<longrightarrow> promise_at (prov sy) p = None) \<and>
     (\<forall>k p. pc_at sy k = Some (Settled p) \<longrightarrow> promise_at (prov sy) p \<noteq> None) \<and>
     (\<forall>k p r. pc_at sy k = Some (Completed (Owned p) r) \<or>
              pc_at sy k = Some (Completed (Shared p) r) \<longrightarrow> promise_at (prov sy) p = Some r) \<and>
     (\<forall>p. authenticationPromise (prov sy) = Some p \<longrightarrow> p < length (promises (prov sy)))"

text \<open>
  The accounting of the counted effects. \<open>grown st0 a b c d st\<close>: since \<open>st0\<close> the provider
  has made \<open>a\<close> discovery requests, \<open>b\<close> registration requests, \<open>c\<close> binds and \<open>d\<close> token
  requests. \<open>registrations_due\<close> is the number of registration requests that
  \<^verbatim>\<open>registerClient\<close> makes: one when there is neither a static nor a stored or cached
  identity, none otherwise. \<open>progress\<close> gives the expected counts at each point of a first
  attempt, and \<open>first_flight\<close> says that the system is at most in its first attempt.
\<close>

definition grown :: "provider \<Rightarrow> nat \<Rightarrow> nat \<Rightarrow> nat \<Rightarrow> nat \<Rightarrow> provider \<Rightarrow> bool" where
  "grown st0 a b c d st \<longleftrightarrow>
     count is_discovery st = count is_discovery st0 + a \<and>
     count is_registration st = count is_registration st0 + b \<and>
     count is_bind st = count is_bind st0 + c \<and>
     count is_token_request st = count is_token_request st0 + d"

definition registrations_due :: "provider \<Rightarrow> nat" where
  "registrations_due st = (if staticOAuthClientInfo (options st) = None \<and> fst (clientInformation st) = None
             then 1 else 0)"

definition progress :: "provider \<Rightarrow> provider \<Rightarrow> pc \<Rightarrow> bool" where
  "progress st0 st c =
     (case c of
        Performing p g \<Rightarrow>
          (case g of
             Discovering \<Rightarrow> grown st0 0 0 0 0 st \<and> registrations_due st = registrations_due st0
           | Registering \<Rightarrow> grown st0 1 0 0 0 st \<and> registrations_due st = registrations_due st0
           | Initializing \<Rightarrow> grown st0 1 (registrations_due st0) 0 0 st
           | Authorizing \<Rightarrow> grown st0 1 (registrations_due st0) 1 0 st)
      | Settled p \<Rightarrow>
          (promise_at st p = Some (Inr ()) \<longrightarrow> grown st0 1 (registrations_due st0) 1 1 st) \<and>
          (\<exists>a b c d. a \<le> 1 \<and> b \<le> 1 \<and> c \<le> 1 \<and> d \<le> 1 \<and> grown st0 a b c d st)
      | _ \<Rightarrow> True)"

definition first_flight :: "provider \<Rightarrow> system \<Rightarrow> bool" where
  "first_flight st0 sy \<longleftrightarrow>
     (authenticationPromise (prov sy) = None \<longrightarrow>
        promises (prov sy) = promises st0 \<and> grown st0 0 0 0 0 (prov sy) \<and> registrations_due (prov sy) = registrations_due st0) \<and>
     (\<forall>p. authenticationPromise (prov sy) = Some p \<longrightarrow>
        length (promises (prov sy)) = Suc (length (promises st0)) \<and> (\<exists>k. owns sy k p)) \<and>
     (\<forall>k c. pc_at sy k = Some c \<longrightarrow> progress st0 (prov sy) c)"

text \<open>The events that run a \<^verbatim>\<open>finally\<close> block, and those that only complete a call.\<close>

fun is_Finally :: "event \<Rightarrow> bool" where
  "is_Finally (Finally k) = True"
| "is_Finally e = False"

fun is_completion :: "event \<Rightarrow> bool" where
  "is_completion (Finally k) = True"
| "is_completion (Adopt k) = True"
| "is_completion e = False"

section \<open>Concrete inputs\<close>

text \<open>
  Inputs for evaluating the definitions. \<open>demo_random\<close> and \<open>demo_digest\<close> stand in for
  the two crypto functions where a run has to be computed; no property below depends on
  what they return.
\<close>

definition demo_random :: "nat \<Rightarrow> byte list" where
  "demo_random n = map of_nat [0..<n]"

definition demo_digest :: "byte list \<Rightarrow> byte list" where
  "demo_digest bs = replicate 32 (of_nat (length bs))"

definition demo_disk :: storage where
  "demo_disk = (\<lambda>h. empty_partition)(''0123456789abcdef'' :=
      \<lparr>tokens_json = Corrupt, client_info_json = Missing, code_verifier_txt = None\<rparr>)"

definition demo_options :: provider_options where
  "demo_options =
     \<lparr>serverUrl = ''https://mcp.example.com'', callbackPort = 12334, host = ''localhost'',
      callbackPath = ''/oauth/callback'', clientName = ''MCP OAuth Client'',
      clientUri = ''https://modelcontextprotocol.io'', softwareId = ''mcp-oauth-client'',
      softwareVersion = ''1.0.0'', staticOAuthClientMetadata = None,
      staticOAuthClientInfo = None, authorizeResource = None, autoAuthenticate = True\<rparr>"

definition demo_metadata :: server_metadata where
  "demo_metadata =
     \<lparr>authorization_endpoint = ''https://auth.example.com/authorize'',
      token_endpoint = ''https://auth.example.com/token'',
      registration_endpoint = Some ''https://auth.example.com/register''\<rparr>"

definition demo_client :: client_information where
  "demo_client =
     \<lparr>client_id = ''client-1'', client_secret = None,
      redirect_uris = Some [''http://localhost:12334/oauth/callback'']\<rparr>"

definition demo_tokens :: oauth_tokens where
  "demo_tokens =
     \<lparr>access_token = Some ''at-1'', token_type = Some ''Bearer'', expires_in = Some 3600,
      refresh_token = None, scope = None\<rparr>"

text \<open>
  A stand-in for \<^verbatim>\<open>new URL(target, base)\<close> on the targets used below. A target made of two
  or more slashes only starts an authority with an empty host and is rejected. Any other
  target is taken as an origin-form target of plain characters: the path up to \<^verbatim>\<open>?\<close>, the
  query split at \<^verbatim>\<open>&\<close> and at the first \<^verbatim>\<open>=\<close> of each field.
\<close>

definition query_fields :: "string \<Rightarrow> string list" where
  "query_fields s =
     foldr (\<lambda>c fs. if c = CHR ''&'' then [] # fs else (c # hd fs) # tl fs) s [[]]"

definition query_pair :: "string \<Rightarrow> string \<times> string" where
  "query_pair f =
     (takeWhile (\<lambda>c. c \<noteq> CHR ''='') f, drop 1 (dropWhile (\<lambda>c. c \<noteq> CHR ''='') f))"

definition demo_URL :: "string \<Rightarrow> target option" where
  "demo_URL t =
     (if 2 \<le> length t \<and> list_all (\<lambda>c. c = CHR ''/'') t then None
      else Some \<lparr>pathname = takeWhile (\<lambda>c. c \<noteq> CHR ''?'') t,
                 query = map query_pair
                           (filter (\<lambda>f. f \<noteq> [])
                              (query_fields (drop 1 (dropWhile (\<lambda>c. c \<noteq> CHR ''?'') t))))\<rparr>)"

text \<open>The redirect that delivers a code, and \<^verbatim>\<open>GET // HTTP/1.1\<close>.\<close>

definition demo_callback :: request where
  "demo_callback = \<lparr>req_url = Some ''/oauth/callback?code=abc123''\<rparr>"

definition demo_slashes :: request where
  "demo_slashes = \<lparr>req_url = Some ''//''\<rparr>"

text \<open>
  A world in which every step succeeds: the redirect delivers \<^verbatim>\<open>code=abc123\<close>. And the
  same world with no redirect at all, so that the timer fires.
\<close>

definition demo_env :: env where
  "demo_env =
     \<lparr>discovery_response = Inr demo_metadata, registration_response = Inr demo_client,
      listen_error = None, randomBytes = demo_random, sha256 = demo_digest,
      open_error = None, new_URL = demo_URL, callback_requests = [demo_callback],
      token_response = Inr demo_tokens\<rparr>"


definition demo_provider :: provider where
  "demo_provider = new_provider demo_options ''0123456789abcdef'' demo_disk"

text \<open>A provider past discovery whose client identity has no \<^verbatim>\<open>redirect_uris\<close>.\<close>

definition demo_ready :: provider where
  "demo_ready = demo_provider\<lparr>discoveryDocument := Some demo_metadata,
                               clientInfo := Some (demo_client\<lparr>redirect_uris := None\<rparr>)\<rparr>"


definition demo_static_options :: provider_options where
  "demo_static_options = demo_options\<lparr>staticOAuthClientInfo := Some demo_client\<rparr>"

text \<open>A store that holds a registered identity, and a new provider started on it.\<close>

definition demo_disk_registered :: storage where
  "demo_disk_registered = saveClientInfo demo_disk ''0123456789abcdef'' demo_client"

definition demo_restarted :: provider where
  "demo_restarted = new_provider demo_options ''0123456789abcdef'' demo_disk_registered"

text \<open>
  The provider after a first successful \<^verbatim>\<open>ensureAuthenticated\<close>, then after
  \<^verbatim>\<open>invalidateCredentials('tokens')\<close>; and the system in which one call has started an
  attempt, and in which that attempt has settled but its \<^verbatim>\<open>finally\<close> block has not run.
\<close>

definition demo_authenticated :: provider where
  "demo_authenticated = snd (ensureAuthenticated demo_env demo_provider)"

definition demo_invalidated :: provider where
  "demo_invalidated = invalidateCredentials ScopeTokens demo_authenticated"

definition demo_in_flight :: system where
  "demo_in_flight = run [Call, ReadDone 0, Resume 0] (start demo_provider)"

definition demo_settled :: system where
  "demo_settled =
     run [Call, ReadDone 0, Resume 0, Advance 0 demo_env, Advance 0 demo_env,
          Advance 0 demo_env, Advance 0 demo_env] (start demo_provider)"

text \<open>
  An authorization server that cannot be reached; a schedule in which a second call arrives
  while the first one's attempt is in flight and resumes before that attempt's
  \<^verbatim>\<open>finally\<close> block; and one in which it resumes after it.
\<close>

definition demo_env_down :: env where
  "demo_env_down = demo_env\<lparr>discovery_response := Inl ''connect ECONNREFUSED''\<rparr>"

definition demo_joined :: "event list" where
  "demo_joined =
     [Call, ReadDone 0, Resume 0, Call, ReadDone 1, Resume 1, Advance 0 demo_env,
      Advance 0 demo_env, Advance 0 demo_env, Advance 0 demo_env]"

definition demo_late :: "event list" where
  "demo_late =
     [Call, ReadDone 0, Resume 0, Call, Advance 0 demo_env_down, Finally 0, ReadDone 1,
      Resume 1, Advance 1 demo_env]"

section \<open>Properties of the credential store\<close>

lemma deleteTokens_eq: "deleteTokens s h = s(h := (s h)\<lparr>tokens_json := Missing\<rparr>)"
  by (cases "tokens_json (s h)") (auto simp: deleteTokens_def unlink_json_def fun_eq_iff)

lemma deleteClientInfo_eq: "deleteClientInfo s h = s(h := (s h)\<lparr>client_info_json := Missing\<rparr>)"
  by (cases "client_info_json (s h)") (auto simp: deleteClientInfo_def unlink_json_def fun_eq_iff)

lemma deleteCodeVerifier_eq: "deleteCodeVerifier s h = s(h := (s h)\<lparr>code_verifier_txt := None\<rparr>)"
  by (cases "code_verifier_txt (s h)") (auto simp: deleteCodeVerifier_def unlink_text_def fun_eq_iff)

lemma get_absent:
  "read_json (tokens_json (s h)) = Inl e \<Longrightarrow> getTokens s h = None"
  "read_json (client_info_json (s h)) = Inl e \<Longrightarrow> getClientInfo s h = None"
  "read_text (code_verifier_txt (s h)) = Inl e' \<Longrightarrow> getCodeVerifier s h = None"
  by (simp_all add: getTokens_def getClientInfo_def getCodeVerifier_def)

lemma delete_missing:
  "unlink_json (tokens_json (s h)) = Inl e \<Longrightarrow> deleteTokens s h = s"
  "unlink_json (client_info_json (s h)) = Inl e \<Longrightarrow> deleteClientInfo s h = s"
  "unlink_text (code_verifier_txt (s h)) = Inl e' \<Longrightarrow> deleteCodeVerifier s h = s"
  by (simp_all add: deleteTokens_def deleteClientInfo_def deleteCodeVerifier_def)

lemma delete_idem:
  "deleteTokens (deleteTokens s h) h = deleteTokens s h"
  "deleteClientInfo (deleteClientInfo s h) h = deleteClientInfo s h"
  "deleteCodeVerifier (deleteCodeVerifier s h) h = deleteCodeVerifier s h"
  by (simp_all add: deleteTokens_eq deleteClientInfo_eq deleteCodeVerifier_eq)

lemma get_after_delete:
  "getTokens (deleteTokens s h) h = None"
  "getClientInfo (deleteClientInfo s h) h = None"
  "getCodeVerifier (deleteCodeVerifier s h) h = None"
  by (simp_all add: deleteTokens_eq deleteClientInfo_eq deleteCodeVerifier_eq
        getTokens_def getClientInfo_def getCodeVerifier_def read_json_def read_text_def)

lemma invalidate_twice:
  "storage (invalidateCredentials sc (invalidateCredentials sc st)) =
     storage (invalidateCredentials sc st)"
  "clientInfo (invalidateCredentials sc (invalidateCredentials sc st)) =
     clientInfo (invalidateCredentials sc st)"
  "priv_codeVerifier (invalidateCredentials sc (invalidateCredentials sc st)) =
     priv_codeVerifier (invalidateCredentials sc st)"
  by (cases sc; simp add: invalidateCredentials_def effect_def Let_def
        deleteTokens_eq deleteClientInfo_eq deleteCodeVerifier_eq)+

lemma invalidate_leaves_no_record:
  "sc \<in> {ScopeAll, ScopeTokens} \<Longrightarrow>
     getTokens (storage (invalidateCredentials sc st)) (serverUrlHash st) = None"
  "sc \<in> {ScopeAll, ScopeClient} \<Longrightarrow>
     getClientInfo (storage (invalidateCredentials sc st)) (serverUrlHash st) = None \<and>
     clientInfo (invalidateCredentials sc st) = None"
  "sc \<in> {ScopeAll, ScopeVerifier} \<Longrightarrow>
     getCodeVerifier (storage (invalidateCredentials sc st)) (serverUrlHash st) = None \<and>
     priv_codeVerifier (invalidateCredentials sc st) = None"
  by (auto simp: invalidateCredentials_def effect_def Let_def
        deleteTokens_eq deleteClientInfo_eq deleteCodeVerifier_eq
        getTokens_def getClientInfo_def getCodeVerifier_def read_json_def read_text_def)

text \<open>
  Claim C9. For every server hash: whenever the underlying read or parse raises, the
  getter returns the absent result instead of raising; whenever the unlink raises, the
  deleter leaves the store as it is; deleting twice is deleting once, and after a delete the
  getter finds nothing. Invalidating a scope twice in a row leaves the store and the
  in-memory copies as the first invalidation left them, with no record of that scope.
\<close>

theorem credential_store_absent_contract:
  "(\<forall>e. read_json (tokens_json (s h)) = Inl e \<longrightarrow> getTokens s h = None) \<and>
   (\<forall>e. read_json (client_info_json (s h)) = Inl e \<longrightarrow> getClientInfo s h = None) \<and>
   (\<forall>e. read_text (code_verifier_txt (s h)) = Inl e \<longrightarrow> getCodeVerifier s h = None) \<and>
   (\<forall>e. unlink_json (tokens_json (s h)) = Inl e \<longrightarrow> deleteTokens s h = s) \<and>
   (\<forall>e. unlink_json (client_info_json (s h)) = Inl e \<longrightarrow> deleteClientInfo s h = s) \<and>
   (\<forall>e. unlink_text (code_verifier_txt (s h)) = Inl e \<longrightarrow> deleteCodeVerifier s h = s) \<and>
   deleteTokens (deleteTokens s h) h = deleteTokens s h \<and>
   deleteClientInfo (deleteClientInfo s h) h = deleteClientInfo s h \<and>
   deleteCodeVerifier (deleteCodeVerifier s h) h = deleteCodeVerifier s h \<and>
   getTokens (deleteTokens s h) h = None \<and>
   getClientInfo (deleteClientInfo s h) h = None \<and>
   getCodeVerifier (deleteCodeVerifier s h) h = None \<and>
   storage (invalidateCredentials sc (invalidateCredentials sc st)) =
     storage (invalidateCredentials sc st) \<and>
   clientInfo (invalidateCredentials sc (invalidateCredentials sc st)) =
     clientInfo (invalidateCredentials sc st) \<and>
   priv_codeVerifier (invalidateCredentials sc (invalidateCredentials sc st)) =
     priv_codeVerifier (invalidateCredentials sc st) \<and>
   (sc \<in> {ScopeAll, ScopeTokens} \<longrightarrow>
      getTokens (storage (invalidateCredentials sc (invalidateCredentials sc st)))
        (serverUrlHash st) = None) \<and>
   (sc \<in> {ScopeAll, ScopeClient} \<longrightarrow>
      getClientInfo (storage (invalidateCredentials sc (invalidateCredentials sc st)))
        (serverUrlHash st) = None \<and>
      clientInfo (invalidateCredentials sc (invalidateCredentials sc st)) = None) \<and>
   (sc \<in> {ScopeAll, ScopeVerifier} \<longrightarrow>
      getCodeVerifier (storage (invalidateCredentials sc (invalidateCredentials sc st)))
        (serverUrlHash st) = None \<and>
      priv_codeVerifier (invalidateCredentials sc (invalidateCredentials sc st)) = None)"
proof -
  note tw = invalidate_twice [of sc st]
  show ?thesis
    using invalidate_leaves_no_record [of sc st]
    by (simp add: get_absent delete_missing delete_idem get_after_delete tw)
qed

theorem credential_store_absent_contract_witness:
  "read_json (tokens_json (demo_disk ''0123456789abcdef'')) = Inl SyntaxError \<and>
   getTokens demo_disk ''0123456789abcdef'' = None \<and>
   read_json (client_info_json (demo_disk ''0123456789abcdef'')) = Inl ENOENT \<and>
   getClientInfo demo_disk ''0123456789abcdef'' = None \<and>
   read_text (code_verifier_txt (demo_disk ''0123456789abcdef'')) = Inl ENOENT \<and>
   getCodeVerifier demo_disk ''0123456789abcdef'' = None \<and>
   unlink_json (client_info_json (demo_disk ''0123456789abcdef'')) = Inl ENOENT \<and>
   deleteClientInfo demo_disk ''0123456789abcdef'' = demo_disk \<and>
   unlink_text (code_verifier_txt (demo_disk ''0123456789abcdef'')) = Inl ENOENT \<and>
   deleteCodeVerifier demo_disk ''0123456789abcdef'' = demo_disk \<and>
   unlink_json (tokens_json (demo_disk ''fedcba9876543210'')) = Inl ENOENT \<and>
   deleteTokens demo_disk ''fedcba9876543210'' = demo_disk \<and>
   ScopeAll \<in> {ScopeAll, ScopeTokens} \<and> ScopeAll \<in> {ScopeAll, ScopeClient} \<and>
   ScopeAll \<in> {ScopeAll, ScopeVerifier} \<and>
   getTokens (storage (invalidateCredentials ScopeAll (invalidateCredentials ScopeAll
      (new_provider demo_options ''0123456789abcdef'' demo_disk)))) ''0123456789abcdef'' = None \<and>
   getClientInfo (storage (invalidateCredentials ScopeAll (invalidateCredentials ScopeAll
      (new_provider demo_options ''0123456789abcdef'' demo_disk)))) ''0123456789abcdef'' = None \<and>
   getCodeVerifier (storage (invalidateCredentials ScopeAll (invalidateCredentials ScopeAll
      (new_provider demo_options ''0123456789abcdef'' demo_disk)))) ''0123456789abcdef'' = None"
proof -
  have a: "read_json (tokens_json (demo_disk ''0123456789abcdef'')) = Inl SyntaxError"
    and b: "read_json (client_info_json (demo_disk ''0123456789abcdef'')) = Inl ENOENT"
    and c: "read_text (code_verifier_txt (demo_disk ''0123456789abcdef'')) = Inl ENOENT"
    and d: "unlink_json (client_info_json (demo_disk ''0123456789abcdef'')) = Inl ENOENT"
    and e: "unlink_text (code_verifier_txt (demo_disk ''0123456789abcdef'')) = Inl ENOENT"
    and f: "unlink_json (tokens_json (demo_disk ''fedcba9876543210'')) = Inl ENOENT"
    by (simp_all add: demo_disk_def empty_partition_def read_json_def read_text_def
          unlink_json_def unlink_text_def)
  have g: "serverUrlHash (new_provider demo_options ''0123456789abcdef'' demo_disk) = ''0123456789abcdef''"
    by (simp add: new_provider_def)
  show ?thesis
    using credential_store_absent_contract
            [of demo_disk "''0123456789abcdef''" ScopeAll
                "new_provider demo_options ''0123456789abcdef'' demo_disk"]
          credential_store_absent_contract
            [of demo_disk "''fedcba9876543210''" ScopeAll
                "new_provider demo_options ''0123456789abcdef'' demo_disk"]
          a b c d e f g
    by simp
qed

section \<open>Properties of the PKCE generator\<close>

lemma length_alphabet: "length base64url_alphabet = 64"
  by (simp add: base64url_alphabet_def)

lemma alphabet_unreserved: "list_all unreserved base64url_alphabet"
  by (simp add: base64url_alphabet_def unreserved_def)

lemma alphabet_no_pad: "CHR ''='' \<notin> set base64url_alphabet"
  by (simp add: base64url_alphabet_def)

lemma digit_in_alphabet: "i < 64 \<Longrightarrow> base64url_digit i \<in> set base64url_alphabet"
  by (simp add: base64url_digit_def length_alphabet)

lemma unat_byte: "unat (a :: byte) < 256"
  using unsigned_less [of a, where ?'a = nat] by simp

lemma base64url_in_alphabet: "set (base64url bs) \<subseteq> set base64url_alphabet"
proof (induction bs rule: base64url.induct)
  case (1 a b c bs)
  have "unat a * 65536 + unat b * 256 + unat c < 16777216"
    using unat_byte [of a] unat_byte [of b] unat_byte [of c] by linarith
  then have "(unat a * 65536 + unat b * 256 + unat c) div 262144 < 64" by simp
  with 1 show ?case by (simp add: Let_def digit_in_alphabet)
next
  case (2 a b)
  have "(unat a * 256 + unat b) * 4 < 262144"
    using unat_byte [of a] unat_byte [of b] by simp
  then have "(unat a * 256 + unat b) * 4 div 4096 < 64" by simp
  then show ?case by (simp add: Let_def digit_in_alphabet)
next
  case (3 a)
  have "unat a * 16 < 4096" using unat_byte [of a] by linarith
  then have "unat a * 16 div 64 < 64" by simp
  then show ?case by (simp add: Let_def digit_in_alphabet)
next
  case 4
  show ?case by simp
qed

lemma length_base64url: "length (base64url bs) = (4 * length bs + 2) div 3"
  by (induction bs rule: base64url.induct) (simp_all add: Let_def)

lemma base64url_unreserved: "list_all unreserved (base64url bs)"
  using base64url_in_alphabet [of bs] alphabet_unreserved
  by (auto simp: list_all_iff)

lemma base64url_no_pad: "CHR ''='' \<notin> set (base64url bs)"
  using base64url_in_alphabet [of bs] alphabet_no_pad by blast

lemma demo_verifier:
  "base64url (demo_random 32) = ''AAECAwQFBgcICQoLDA0ODxAREhMUFRYXGBkaGxwdHh8''"
  by (simp add: demo_random_def upt_rec base64url_digit_def base64url_alphabet_def)

text \<open>
  Claim C5. Whenever \<^verbatim>\<open>crypto.randomBytes(32)\<close> delivers its 32 bytes, the verifier is
  their base64url text: 43 characters of the URL-safe alphabet, none of them the padding
  character. The challenge is the base64url text of the SHA-256 digest of the verifier,
  again unpadded, and the pair passes the S256 check of RFC 7636. That the bytes are
  cryptographically random is the contract of \<^verbatim>\<open>crypto.randomBytes\<close>, the parameter \<open>rnd\<close>.
\<close>

theorem pkce_generation:
  assumes "length (rnd 32) = 32"
  shows "verifier (generatePKCEChallenge rnd sha) = base64url (rnd 32) \<and>
         length (verifier (generatePKCEChallenge rnd sha)) = 43 \<and>
         set (verifier (generatePKCEChallenge rnd sha)) \<subseteq> set base64url_alphabet \<and>
         list_all unreserved (verifier (generatePKCEChallenge rnd sha)) \<and>
         CHR ''='' \<notin> set (verifier (generatePKCEChallenge rnd sha)) \<and>
         challenge (generatePKCEChallenge rnd sha) =
           base64url (sha (utf8 (verifier (generatePKCEChallenge rnd sha)))) \<and>
         set (challenge (generatePKCEChallenge rnd sha)) \<subseteq> set base64url_alphabet \<and>
         CHR ''='' \<notin> set (challenge (generatePKCEChallenge rnd sha)) \<and>
         validate_S256 sha (challenge (generatePKCEChallenge rnd sha))
           (verifier (generatePKCEChallenge rnd sha))"
  using assms
  by (simp add: generatePKCEChallenge_def Let_def validate_S256_def length_base64url
        base64url_unreserved base64url_no_pad base64url_in_alphabet)

theorem pkce_generation_witness:
  "length (demo_random 32) = 32 \<and>
   base64url (demo_random 32) = ''AAECAwQFBgcICQoLDA0ODxAREhMUFRYXGBkaGxwdHh8'' \<and>
   verifier (generatePKCEChallenge demo_random demo_digest) = base64url (demo_random 32) \<and>
   length (verifier (generatePKCEChallenge demo_random demo_digest)) = 43 \<and>
   validate_S256 demo_digest (challenge (generatePKCEChallenge demo_random demo_digest))
     (verifier (generatePKCEChallenge demo_random demo_digest))"
proof -
  have h: "length (demo_random 32) = 32" by (simp add: demo_random_def)
  show ?thesis
    using pkce_generation [of demo_random demo_digest, OF h] h demo_verifier by blast
qed

section \<open>Properties of the callback listener\<close>

lemma demo_URL_callback:
  "demo_URL ''/oauth/callback?code=abc123'' =
     Some \<lparr>pathname = ''/oauth/callback'', query = [(''code'', ''abc123'')]\<rparr>"
  by (simp add: demo_URL_def query_fields_def query_pair_def)

lemma demo_URL_slashes: "demo_URL ''//'' = None"
  by (simp add: demo_URL_def)

lemma first_signal_callback:
  "first_signal demo_URL ''/oauth/callback'' [demo_callback] = Inr (Some (AuthCode ''abc123''))"
  by (simp add: requestHandler_def demo_callback_def demo_URL_callback if_truthy_def truthy_def)

lemma first_signal_slashes:
  "first_signal demo_URL ''/oauth/callback'' [demo_slashes, demo_callback] = Inl ERR_INVALID_URL"
  by (simp add: requestHandler_def demo_slashes_def demo_URL_slashes if_truthy_def truthy_def)

text \<open>
  Claim C8. What the handler does with every request, whatever the URL parser answers.
  When the parser accepts the target: off the callback path the answer is 404 Not Found
  and nothing is signalled; on the callback path, a non-empty \<^verbatim>\<open>error\<close> parameter gives the
  failure page with that error and the signal \<^verbatim>\<open>auth-error\<close> carrying it; otherwise a
  non-empty \<^verbatim>\<open>code\<close> parameter gives the success page that tells the user to close the
  window and the signal \<^verbatim>\<open>auth-code\<close> carrying the code; otherwise the generic failure page
  and no signal. A request without a target is answered 400 Bad Request. When the parser
  rejects the target, as it does for \<^verbatim>\<open>GET // HTTP/1.1\<close>, the handler throws and writes no
  response at all: that request gets no 404, which the claim promises to every request
  off the callback path.
\<close>

theorem callback_dispatch:
  "(\<not> truthy (req_url req) \<longrightarrow>
      requestHandler url path req =
        Inr (\<lparr>status = 400, content_type = None, page = Plain ''Bad Request''\<rparr>, None)) \<and>
   (\<forall>t. req_url req = Some t \<and> t \<noteq> [] \<longrightarrow>
      (url t = None \<longrightarrow> requestHandler url path req = Inl ERR_INVALID_URL) \<and>
      (\<forall>u. url t = Some u \<longrightarrow>
         (pathname u \<noteq> path \<longrightarrow>
            requestHandler url path req =
              Inr (\<lparr>status = 404, content_type = None, page = Plain ''Not Found''\<rparr>, None)) \<and>
         (pathname u = path \<longrightarrow>
            (\<forall>e. map_of (query u) ''error'' = Some e \<and> e \<noteq> [] \<longrightarrow>
                 requestHandler url path req =
                   Inr (\<lparr>status = 400, content_type = Some ''text/html'',
                         page = Html ''Authentication Failed''
                                  [''Error: '' @ e, ''You can close this window.'']\<rparr>,
                        Some (AuthError e))) \<and>
            (\<not> truthy (map_of (query u) ''error'') \<longrightarrow>
               (\<forall>c. map_of (query u) ''code'' = Some c \<and> c \<noteq> [] \<longrightarrow>
                    requestHandler url path req =
                      Inr (\<lparr>status = 200, content_type = Some ''text/html'',
                            page = Html ''Authentication Successful''
                                     [''You can close this window and return to the application.'']\<rparr>,
                           Some (AuthCode c))) \<and>
               (\<not> truthy (map_of (query u) ''code'') \<longrightarrow>
                    requestHandler url path req =
                      Inr (\<lparr>status = 400, content_type = Some ''text/html'',
                            page = Html ''Authentication Failed''
                                     [''No authorization code received.'',
                                      ''You can close this window.'']\<rparr>,
                           None))))))"
  by (simp add: requestHandler_def if_truthy_def truthy_def)

theorem callback_dispatch_witness:
  "req_url demo_slashes = Some ''//'' \<and> demo_URL ''//'' = None \<and>
   requestHandler demo_URL ''/oauth/callback'' demo_slashes = Inl ERR_INVALID_URL \<and>
   req_url demo_callback = Some ''/oauth/callback?code=abc123'' \<and>
   demo_URL ''/oauth/callback?code=abc123'' =
     Some \<lparr>pathname = ''/oauth/callback'', query = [(''code'', ''abc123'')]\<rparr> \<and>
   requestHandler demo_URL ''/oauth/callback'' demo_callback =
     Inr (\<lparr>status = 200, content_type = Some ''text/html'',
           page = Html ''Authentication Successful''
                    [''You can close this window and return to the application.'']\<rparr>,
          Some (AuthCode ''abc123''))"
proof -
  have a: "req_url demo_slashes = Some ''//''" "''//'' \<noteq> []"
    by (simp_all add: demo_slashes_def)
  have b: "req_url demo_callback = Some ''/oauth/callback?code=abc123''"
    "''/oauth/callback?code=abc123'' \<noteq> []"
    by (simp_all add: demo_callback_def)
  have c: "\<not> truthy (map_of [(''code'', ''abc123'')] ''error'')"
    "map_of [(''code'', ''abc123'')] ''code'' = Some ''abc123''"
    by (simp_all add: truthy_def)
  from callback_dispatch [of demo_slashes demo_URL "''/oauth/callback''"] a demo_URL_slashes
  have x: "requestHandler demo_URL ''/oauth/callback'' demo_slashes = Inl ERR_INVALID_URL"
    by blast
  from callback_dispatch [of demo_callback demo_URL "''/oauth/callback''"] b demo_URL_callback c
  have y: "requestHandler demo_URL ''/oauth/callback'' demo_callback =
     Inr (\<lparr>status = 200, content_type = Some ''text/html'',
           page = Html ''Authentication Successful''
                    [''You can close this window and return to the application.'']\<rparr>,
          Some (AuthCode ''abc123''))"
    by simp
  from a(1) demo_URL_slashes x b(1) demo_URL_callback y show ?thesis by blast
qed

section \<open>How each step changes the provider\<close>

lemma effect_simps [simp]:
  "trace (effect e st) = trace st @ [e]"
  "options (effect e st) = options st"
  "serverUrlHash (effect e st) = serverUrlHash st"
  "authServer (effect e st) = authServer st"
  "authenticationPromise (effect e st) = authenticationPromise st"
  "authInitialized (effect e st) = authInitialized st"
  "discoveryDocument (effect e st) = discoveryDocument st"
  "clientInfo (effect e st) = clientInfo st"
  "priv_codeVerifier (effect e st) = priv_codeVerifier st"
  "promises (effect e st) = promises st"
  "listeners (effect e st) = listeners st"
  "storage (effect e st) = storage st"
  by (simp_all add: effect_def)

lemma clientInformation_cached:
  "clientInfo st = Some c \<Longrightarrow> clientInformation st = (Some c, st)"
  by (simp add: clientInformation_def)

lemma clientInformation_load:
  "clientInfo st = None \<Longrightarrow>
   clientInformation st =
     (getClientInfo (storage st) (serverUrlHash st),
      (effect (FsRead ClientInfoFile) st)\<lparr>clientInfo := getClientInfo (storage st) (serverUrlHash st)\<rparr>)"
  by (simp add: clientInformation_def Let_def)

lemma clientInformation_fields:
  "options (snd (clientInformation st)) = options st"
  "serverUrlHash (snd (clientInformation st)) = serverUrlHash st"
  "storage (snd (clientInformation st)) = storage st"
  "discoveryDocument (snd (clientInformation st)) = discoveryDocument st"
  "clientInfo (snd (clientInformation st)) = fst (clientInformation st)"
  "filter is_registration (trace (snd (clientInformation st))) = filter is_registration (trace st)"
  by (cases "clientInfo st"; simp add: clientInformation_def Let_def is_registration_def)+

lemma register_static:
  "staticOAuthClientInfo (options st) = Some c \<Longrightarrow>
   registerClient ev st = (Inr (), st\<lparr>clientInfo := Some c\<rparr>)"
  by (simp add: registerClient_def)

lemma register_cached:
  assumes "staticOAuthClientInfo (options st) = None" "fst (clientInformation st) = Some c"
  shows "registerClient ev st = (Inr (), snd (clientInformation st))"
proof -
  obtain r st1 where ci: "clientInformation st = (r, st1)" by (cases "clientInformation st")
  with assms have r: "r = Some c" by simp
  have "clientInfo st1 = Some c" using clientInformation_fields(5) [of st] ci r by simp
  then have "st1\<lparr>clientInfo := Some c\<rparr> = st1" by simp
  then show ?thesis using assms ci r by (simp add: registerClient_def)
qed

lemma register_dynamic:
  assumes "staticOAuthClientInfo (options st) = None" "fst (clientInformation st) = None"
  shows "registerClient ev st =
     (case if_truthy (discovered_registration_endpoint st) of
        None \<Rightarrow> (Inl NoRegistrationEndpoint, snd (clientInformation st))
      | Some ep \<Rightarrow>
          (case registration_response ev of
             Inl m \<Rightarrow> (Inl (RegistrationFailed m),
                        effect (HttpPost ep (JsonBody (clientMetadata st))) (snd (clientInformation st)))
           | Inr c \<Rightarrow> (Inr (), saveClientInformation c
                        ((effect (HttpPost ep (JsonBody (clientMetadata st))) (snd (clientInformation st)))
                           \<lparr>clientInfo := Some c\<rparr>))))"
proof -
  obtain r st1 where ci: "clientInformation st = (r, st1)" by (cases "clientInformation st")
  with assms have r: "r = None" by simp
  have e: "discovered_registration_endpoint st1 = discovered_registration_endpoint st"
    using clientInformation_fields(4) [of st] ci by (simp add: discovered_registration_endpoint_def)
  have m: "clientMetadata st1 = clientMetadata st"
    using clientInformation_fields(1) [of st] ci
    by (simp add: clientMetadata_def redirectUrl_def split: option.splits)
  show ?thesis using assms ci r e m
    by (simp add: registerClient_def Let_def split: option.splits sum.splits)
qed

lemma stored_identity:
  "fst (clientInformation st) =
     (case clientInfo st of
        Some c \<Rightarrow> Some c
      | None \<Rightarrow>
          (case client_info_json (storage st (serverUrlHash st)) of
             Json c \<Rightarrow> Some c
           | _ \<Rightarrow> None))"
  by (simp add: clientInformation_def Let_def getClientInfo_def read_json_def
      split: option.splits json_file.splits)

lemma register_in_memory:
  assumes "staticOAuthClientInfo (options st) = None" "clientInfo st = Some c"
  shows "registerClient ev st = (Inr (), st)"
  using assms by (simp add: registerClient_def clientInformation_def)

lemma register_on_disk:
  assumes "staticOAuthClientInfo (options st) = None" "clientInfo st = None"
    "client_info_json (storage st (serverUrlHash st)) = Json c"
  shows "registerClient ev st = (Inr (), (effect (FsRead ClientInfoFile) st)\<lparr>clientInfo := Some c\<rparr>)"
  using assms
  by (simp add: registerClient_def clientInformation_def Let_def getClientInfo_def read_json_def)


lemma saveTokens_simps [simp]:
  "trace (saveTokens t st) = trace st @ [FsWrite TokensFile]"
  "options (saveTokens t st) = options st"
  "serverUrlHash (saveTokens t st) = serverUrlHash st"
  "authServer (saveTokens t st) = authServer st"
  "authenticationPromise (saveTokens t st) = authenticationPromise st"
  "authInitialized (saveTokens t st) = authInitialized st"
  "discoveryDocument (saveTokens t st) = discoveryDocument st"
  "clientInfo (saveTokens t st) = clientInfo st"
  "priv_codeVerifier (saveTokens t st) = priv_codeVerifier st"
  "promises (saveTokens t st) = promises st"
  "listeners (saveTokens t st) = listeners st"
  by (simp_all add: saveTokens_def Let_def)

lemma getTokens_saveTokens [simp]:
  "h = serverUrlHash st \<Longrightarrow> getTokens (storage (saveTokens t st)) h = Some t"
  by (simp add: saveTokens_def Let_def saveTokens_file_def getTokens_def read_json_def)

lemma discover_fields [simp]:
  "options (snd (discoverOAuthEndpoints ev st)) = options st"
  "serverUrlHash (snd (discoverOAuthEndpoints ev st)) = serverUrlHash st"
  "storage (snd (discoverOAuthEndpoints ev st)) = storage st"
  "authServer (snd (discoverOAuthEndpoints ev st)) = authServer st"
  "clientInfo (snd (discoverOAuthEndpoints ev st)) = clientInfo st"
  "authenticationPromise (snd (discoverOAuthEndpoints ev st)) = authenticationPromise st"
  "promises (snd (discoverOAuthEndpoints ev st)) = promises st"
  "authInitialized (snd (discoverOAuthEndpoints ev st)) = authInitialized st"
  "listeners (snd (discoverOAuthEndpoints ev st)) = listeners st"
  "trace (snd (discoverOAuthEndpoints ev st)) =
     trace st @ [HttpGet ''/.well-known/oauth-authorization-server'' (serverUrl (options st))]"
  by (simp_all add: discoverOAuthEndpoints_def Let_def split: sum.splits)

lemma register_fields [simp]:
  "options (snd (registerClient ev st)) = options st"
  "serverUrlHash (snd (registerClient ev st)) = serverUrlHash st"
  "authServer (snd (registerClient ev st)) = authServer st"
  "discoveryDocument (snd (registerClient ev st)) = discoveryDocument st"
  "authenticationPromise (snd (registerClient ev st)) = authenticationPromise st"
  "promises (snd (registerClient ev st)) = promises st"
  "authInitialized (snd (registerClient ev st)) = authInitialized st"
  "listeners (snd (registerClient ev st)) = listeners st"
  "tokens_json (storage (snd (registerClient ev st)) h) = tokens_json (storage st h)"
  by (auto simp: registerClient_def clientInformation_def Let_def saveClientInformation_def
        saveClientInfo_def
      split: option.splits sum.splits prod.splits)


lemma map_of_replace_other:
  "k' \<noteq> k \<Longrightarrow>
   map_of (map (\<lambda>(a, b). if a = k then (a, v) else (a, b)) ps) k' = map_of ps k'"
  by (induction ps) (simp_all add: split_beta)

lemma map_of_replace_same:
  "k \<in> fst ` set ps \<Longrightarrow>
   map_of (map (\<lambda>(a, b). if a = k then (a, v) else (a, b)) ps) k = Some v"
  by (induction ps) (auto simp: split_beta)

lemma map_of_searchParams_set [simp]:
  "map_of (searchParams (searchParams_set k v u)) k' =
     (if k' = k then Some v else map_of (searchParams u) k')"
proof (cases "k \<in> fst ` set (searchParams u)")
  case True
  then show ?thesis
    by (cases "k' = k") (simp_all add: searchParams_set_def map_of_replace_other map_of_replace_same)
next
  case False
  then have "map_of (searchParams u) k = None" by (simp add: map_of_eq_None_iff)
  with False show ?thesis
    by (auto simp: searchParams_set_def map_add_def split: option.splits)
qed

lemma opened_urls_append [simp]: "opened_urls (xs @ ys) = opened_urls xs @ opened_urls ys"
  by (simp add: opened_urls_def)

lemma token_requests_append [simp]: "token_requests (xs @ ys) = token_requests xs @ token_requests ys"
  by (simp add: token_requests_def)

lemma opened_urls_simps [simp]:
  "opened_urls [] = []"
  "opened_urls (e # es) = (case e of OpenBrowser u \<Rightarrow> [u] | _ \<Rightarrow> []) @ opened_urls es"
  by (simp_all add: opened_urls_def)

lemma token_requests_simps [simp]:
  "token_requests [] = []"
  "token_requests (e # es) =
     (case e of HttpPost a (FormBody ps) \<Rightarrow> [ps] | _ \<Rightarrow> []) @ token_requests es"
  by (simp_all add: token_requests_def)

lemma saveCodeVerifier_simps [simp]:
  "trace (saveCodeVerifier v st) = trace st @ [FsWrite CodeVerifierFile]"
  "options (saveCodeVerifier v st) = options st"
  "serverUrlHash (saveCodeVerifier v st) = serverUrlHash st"
  "authServer (saveCodeVerifier v st) = authServer st"
  "authenticationPromise (saveCodeVerifier v st) = authenticationPromise st"
  "authInitialized (saveCodeVerifier v st) = authInitialized st"
  "discoveryDocument (saveCodeVerifier v st) = discoveryDocument st"
  "clientInfo (saveCodeVerifier v st) = clientInfo st"
  "promises (saveCodeVerifier v st) = promises st"
  "listeners (saveCodeVerifier v st) = listeners st"
  "tokens_json (storage (saveCodeVerifier v st) h) = tokens_json (storage st h)"
  by (simp_all add: saveCodeVerifier_def Let_def saveCodeVerifier_file_def)

lemma wait_fields [simp]:
  "trace (snd (waitForAuthCode ev st)) = trace st"
  "options (snd (waitForAuthCode ev st)) = options st"
  "serverUrlHash (snd (waitForAuthCode ev st)) = serverUrlHash st"
  "authServer (snd (waitForAuthCode ev st)) = authServer st"
  "authenticationPromise (snd (waitForAuthCode ev st)) = authenticationPromise st"
  "authInitialized (snd (waitForAuthCode ev st)) = authInitialized st"
  "discoveryDocument (snd (waitForAuthCode ev st)) = discoveryDocument st"
  "clientInfo (snd (waitForAuthCode ev st)) = clientInfo st"
  "promises (snd (waitForAuthCode ev st)) = promises st"
  "storage (snd (waitForAuthCode ev st)) = storage st"
  by (simp_all add: waitForAuthCode_def Let_def split: option.splits signal.splits sum.splits)


lemma exchange_opens_nothing [simp]:
  "opened_urls (trace (snd (exchangeCodeForTokens ev code v st))) = opened_urls (trace st)"
  by (auto simp: exchangeCodeForTokens_def Let_def split: option.splits sum.splits)


lemma init_fields [simp]:
  "options (snd (initializeAuth ev st)) = options st"
  "serverUrlHash (snd (initializeAuth ev st)) = serverUrlHash st"
  "storage (snd (initializeAuth ev st)) = storage st"
  "discoveryDocument (snd (initializeAuth ev st)) = discoveryDocument st"
  "clientInfo (snd (initializeAuth ev st)) = clientInfo st"
  "authenticationPromise (snd (initializeAuth ev st)) = authenticationPromise st"
  "promises (snd (initializeAuth ev st)) = promises st"
  "authInitialized (snd (initializeAuth ev st)) = authInitialized st"
  "listeners (snd (initializeAuth ev st)) = listeners st"
  "trace (snd (initializeAuth ev st)) = trace st @ [Listen (callbackPort (options st))]"
  by (simp_all add: initializeAuth_def Let_def split: option.splits)


lemma exchange_frame:
  "options (snd (exchangeCodeForTokens ev code v st)) = options st \<and>
   serverUrlHash (snd (exchangeCodeForTokens ev code v st)) = serverUrlHash st \<and>
   authServer (snd (exchangeCodeForTokens ev code v st)) = authServer st \<and>
   discoveryDocument (snd (exchangeCodeForTokens ev code v st)) = discoveryDocument st \<and>
   clientInfo (snd (exchangeCodeForTokens ev code v st)) = clientInfo st \<and>
   authenticationPromise (snd (exchangeCodeForTokens ev code v st)) = authenticationPromise st \<and>
   promises (snd (exchangeCodeForTokens ev code v st)) = promises st \<and>
   authInitialized (snd (exchangeCodeForTokens ev code v st)) = authInitialized st \<and>
   listeners (snd (exchangeCodeForTokens ev code v st)) = listeners st"
  by (simp add: exchangeCodeForTokens_def Let_def split: option.splits sum.splits)

lemmas exchange_fields [simp] =
  exchange_frame [THEN conjunct1]
  exchange_frame [THEN conjunct2, THEN conjunct1]
  exchange_frame [THEN conjunct2, THEN conjunct2, THEN conjunct1]
  exchange_frame [THEN conjunct2, THEN conjunct2, THEN conjunct2, THEN conjunct1]
  exchange_frame [THEN conjunct2, THEN conjunct2, THEN conjunct2, THEN conjunct2, THEN conjunct1]
  exchange_frame [THEN conjunct2, THEN conjunct2, THEN conjunct2, THEN conjunct2, THEN conjunct2,
    THEN conjunct1]
  exchange_frame [THEN conjunct2, THEN conjunct2, THEN conjunct2, THEN conjunct2, THEN conjunct2,
    THEN conjunct2, THEN conjunct1]
  exchange_frame [THEN conjunct2, THEN conjunct2, THEN conjunct2, THEN conjunct2, THEN conjunct2,
    THEN conjunct2, THEN conjunct2, THEN conjunct1]
  exchange_frame [THEN conjunct2, THEN conjunct2, THEN conjunct2, THEN conjunct2, THEN conjunct2,
    THEN conjunct2, THEN conjunct2, THEN conjunct2]

lemma flow_frame:
  "options (snd (performAuthorizationCodeFlow ev st)) = options st \<and>
   serverUrlHash (snd (performAuthorizationCodeFlow ev st)) = serverUrlHash st \<and>
   authServer (snd (performAuthorizationCodeFlow ev st)) = authServer st \<and>
   discoveryDocument (snd (performAuthorizationCodeFlow ev st)) = discoveryDocument st \<and>
   clientInfo (snd (performAuthorizationCodeFlow ev st)) = clientInfo st \<and>
   authenticationPromise (snd (performAuthorizationCodeFlow ev st)) = authenticationPromise st \<and>
   promises (snd (performAuthorizationCodeFlow ev st)) = promises st \<and>
   authInitialized (snd (performAuthorizationCodeFlow ev st)) = authInitialized st"
  by (simp add: performAuthorizationCodeFlow_def Let_def split_beta
      split: option.splits sum.splits)

lemmas flow_fields [simp] =
  flow_frame [THEN conjunct1]
  flow_frame [THEN conjunct2, THEN conjunct1]
  flow_frame [THEN conjunct2, THEN conjunct2, THEN conjunct1]
  flow_frame [THEN conjunct2, THEN conjunct2, THEN conjunct2, THEN conjunct1]
  flow_frame [THEN conjunct2, THEN conjunct2, THEN conjunct2, THEN conjunct2, THEN conjunct1]
  flow_frame [THEN conjunct2, THEN conjunct2, THEN conjunct2, THEN conjunct2, THEN conjunct2,
    THEN conjunct1]
  flow_frame [THEN conjunct2, THEN conjunct2, THEN conjunct2, THEN conjunct2, THEN conjunct2,
    THEN conjunct2, THEN conjunct1]
  flow_frame [THEN conjunct2, THEN conjunct2, THEN conjunct2, THEN conjunct2, THEN conjunct2,
    THEN conjunct2, THEN conjunct2]

lemma saveClientInformation_simps [simp]:
  "trace (saveClientInformation c st) = trace st @ [FsWrite ClientInfoFile]"
  "options (saveClientInformation c st) = options st"
  "serverUrlHash (saveClientInformation c st) = serverUrlHash st"
  "clientInfo (saveClientInformation c st) = Some c"
  by (simp_all add: saveClientInformation_def Let_def)

lemma register_filter:
  assumes "\<And>a m. \<not> P (HttpPost a (JsonBody m))" "\<not> P (FsWrite ClientInfoFile)"
    "\<not> P (FsRead ClientInfoFile)"
  shows "filter P (trace (snd (registerClient ev st))) = filter P (trace st)"
proof (cases "staticOAuthClientInfo (options st)")
  case (Some c)
  then show ?thesis by (simp add: register_static)
next
  case None
  have ci: "filter P (trace (snd (clientInformation st))) = filter P (trace st)"
    using assms by (cases "clientInfo st") (simp_all add: clientInformation_def Let_def)
  show ?thesis
  proof (cases "fst (clientInformation st)")
    case (Some c)
    with None ci show ?thesis by (simp add: register_cached)
  next
    case nc: None
    with None ci assms show ?thesis
      by (simp add: register_dynamic split: option.splits sum.splits)
  qed
qed

lemma exchange_filter:
  assumes "\<And>a ps. \<not> P (HttpPost a (FormBody ps))" "\<not> P (FsWrite TokensFile)"
  shows "filter P (trace (snd (exchangeCodeForTokens ev code v st))) = filter P (trace st)"
  using assms
  by (simp add: exchangeCodeForTokens_def Let_def split: option.splits sum.splits)

lemma flow_filter:
  assumes "\<And>a ps. \<not> P (HttpPost a (FormBody ps))" "\<not> P (FsWrite TokensFile)"
    "\<not> P (RandomBytes 32)" "\<not> P (FsWrite CodeVerifierFile)" "\<And>u. \<not> P (OpenBrowser u)"
  shows "filter P (trace (snd (performAuthorizationCodeFlow ev st))) = filter P (trace st)"
  using assms
  by (simp add: performAuthorizationCodeFlow_def Let_def split_beta exchange_filter
      split: option.splits sum.splits)


lemma flow_outcomes:
  "fst (performAuthorizationCodeFlow ev st) = Inl AuthenticationTimeout \<or>
   fst (performAuthorizationCodeFlow ev st) = Inl (AuthenticationError e) \<or>
   fst (performAuthorizationCodeFlow ev st) = Inr u \<Longrightarrow>
   discoveryDocument st \<noteq> None \<and> clientInfo st \<noteq> None"
  by (auto simp: performAuthorizationCodeFlow_def split: option.splits)


lemma performAuthentication_unfold:
  "performAuthentication ev st =
     (case fst (discoverOAuthEndpoints ev st) of
        Inl e \<Rightarrow> (Inl e, snd (discoverOAuthEndpoints ev st))
      | Inr u1 \<Rightarrow>
         (case fst (registerClient ev (snd (discoverOAuthEndpoints ev st))) of
            Inl e \<Rightarrow> (Inl e, snd (registerClient ev (snd (discoverOAuthEndpoints ev st))))
          | Inr u2 \<Rightarrow>
             (case fst (initializeAuth ev (snd (registerClient ev (snd (discoverOAuthEndpoints ev st))))) of
                Inl e \<Rightarrow> (Inl e, snd (initializeAuth ev (snd (registerClient ev (snd (discoverOAuthEndpoints ev st))))))
              | Inr u3 \<Rightarrow>
                 (case fst (performAuthorizationCodeFlow ev
                              (snd (initializeAuth ev (snd (registerClient ev (snd (discoverOAuthEndpoints ev st))))))) of
                    Inl e \<Rightarrow> (Inl e, snd (performAuthorizationCodeFlow ev
                              (snd (initializeAuth ev (snd (registerClient ev (snd (discoverOAuthEndpoints ev st))))))))
                  | Inr u4 \<Rightarrow> (Inr (), (snd (performAuthorizationCodeFlow ev
                              (snd (initializeAuth ev (snd (registerClient ev (snd (discoverOAuthEndpoints ev st))))))))
                                \<lparr>authInitialized := True\<rparr>)))))"
  by (simp add: performAuthentication_def split_beta split: sum.splits)




section \<open>Client identity resolution\<close>

text \<open>
  Claim C6. With static client info configured, \<^verbatim>\<open>registerClient\<close> installs it and does
  nothing else: no read of the store, no registration request. Without it, an identity
  held in memory is used as it is; failing that, an identity held in \<^verbatim>\<open>client_info.json\<close>
  of the credential store is read, installed and used. In both cases no registration
  request is sent and the store is left as it was. With neither (the file is missing or
  does not parse), the error \<^verbatim>\<open>No registration endpoint found in discovery document\<close> is
  raised exactly when the discovery document has no non-empty \<^verbatim>\<open>registration_endpoint\<close>;
  otherwise one registration request is sent, and when it succeeds the identity is in
  \<^verbatim>\<open>client_info.json\<close> and in memory when the step returns. That error is raised in no
  other situation.
\<close>

theorem client_identity_resolution:
  "(\<forall>c. staticOAuthClientInfo (options st) = Some c \<longrightarrow>
        registerClient ev st = (Inr (), st\<lparr>clientInfo := Some c\<rparr>) \<and>
        trace (snd (registerClient ev st)) = trace st \<and>
        storage (snd (registerClient ev st)) = storage st) \<and>
   (staticOAuthClientInfo (options st) = None \<longrightarrow>
      (\<forall>c. clientInfo st = Some c \<longrightarrow>
           registerClient ev st = (Inr (), st)) \<and>
      (\<forall>c. clientInfo st = None \<and> client_info_json (storage st (serverUrlHash st)) = Json c \<longrightarrow>
           registerClient ev st = (Inr (), (effect (FsRead ClientInfoFile) st)\<lparr>clientInfo := Some c\<rparr>) \<and>
           clientInfo (snd (registerClient ev st)) = Some c \<and>
           storage (snd (registerClient ev st)) = storage st \<and>
           trace (snd (registerClient ev st)) = trace st @ [FsRead ClientInfoFile]) \<and>
      (clientInfo st = None \<and> (\<forall>c. client_info_json (storage st (serverUrlHash st)) \<noteq> Json c) \<longrightarrow>
         (fst (registerClient ev st) = Inl NoRegistrationEndpoint \<longleftrightarrow>
            (\<forall>d ep. discoveryDocument st = Some d \<and> registration_endpoint d = Some ep \<longrightarrow> ep = [])) \<and>
         (\<forall>d ep m. discoveryDocument st = Some d \<and> registration_endpoint d = Some ep \<and> ep \<noteq> [] \<and>
               registration_response ev = Inl m \<longrightarrow>
               fst (registerClient ev st) = Inl (RegistrationFailed m)) \<and>
         (\<forall>d ep c. discoveryDocument st = Some d \<and> registration_endpoint d = Some ep \<and> ep \<noteq> [] \<and>
               registration_response ev = Inr c \<longrightarrow>
               fst (registerClient ev st) = Inr () \<and>
               clientInfo (snd (registerClient ev st)) = Some c \<and>
               client_info_json (storage (snd (registerClient ev st)) (serverUrlHash st)) = Json c \<and>
               filter is_registration (trace (snd (registerClient ev st))) =
                 filter is_registration (trace st) @ [HttpPost ep (JsonBody (clientMetadata st))]))) \<and>
   (fst (registerClient ev st) = Inl NoRegistrationEndpoint \<longleftrightarrow>
      staticOAuthClientInfo (options st) = None \<and> clientInfo st = None \<and>
      (\<forall>c. client_info_json (storage st (serverUrlHash st)) \<noteq> Json c) \<and>
      (\<forall>d ep. discoveryDocument st = Some d \<and> registration_endpoint d = Some ep \<longrightarrow> ep = []))"
proof (cases "staticOAuthClientInfo (options st)")
  case (Some c)
  then show ?thesis by (simp add: register_static)
next
  case None
  have ep: "\<not> truthy (discovered_registration_endpoint st) \<longleftrightarrow>
            (\<forall>d ep. discoveryDocument st = Some d \<and> registration_endpoint d = Some ep \<longrightarrow> ep = [])"
    by (auto simp: discovered_registration_endpoint_def truthy_def split: option.splits)
  show ?thesis
  proof (cases "clientInfo st")
    case (Some c)
    with None show ?thesis by (simp add: register_in_memory)
  next
    case nc: None
    show ?thesis
    proof (cases "client_info_json (storage st (serverUrlHash st))")
      case (Json c)
      with None nc show ?thesis by (simp add: register_on_disk)
    next
      case Missing
      with nc have f: "fst (clientInformation st) = None" by (simp add: stored_identity)
      have reg: "\<not> is_registration (FsWrite ClientInfoFile)" by (simp add: is_registration_def)
      from None nc Missing show ?thesis
        unfolding ep [symmetric]
        by (auto simp: register_dynamic [OF None f] clientInformation_fields if_truthy_def truthy_def
              discovered_registration_endpoint_def
              saveClientInformation_def Let_def saveClientInfo_def is_registration_def
            split: option.splits sum.splits)
    next
      case Corrupt
      with nc have f: "fst (clientInformation st) = None" by (simp add: stored_identity)
      from None nc Corrupt show ?thesis
        unfolding ep [symmetric]
        by (auto simp: register_dynamic [OF None f] clientInformation_fields if_truthy_def truthy_def
              discovered_registration_endpoint_def
              saveClientInformation_def Let_def saveClientInfo_def is_registration_def
            split: option.splits sum.splits)
    qed
  qed
qed

theorem client_identity_resolution_witness:
  "registerClient demo_env (new_provider demo_static_options ''0123456789abcdef'' demo_disk) =
     (Inr (), (new_provider demo_static_options ''0123456789abcdef'' demo_disk)
                \<lparr>clientInfo := Some demo_client\<rparr>) \<and>
   clientInfo demo_ready = Some (demo_client\<lparr>redirect_uris := None\<rparr>) \<and>
   registerClient demo_env demo_ready = (Inr (), demo_ready) \<and>
   clientInfo demo_restarted = None \<and>
   client_info_json (storage demo_restarted (serverUrlHash demo_restarted)) = Json demo_client \<and>
   registerClient demo_env demo_restarted =
     (Inr (), (effect (FsRead ClientInfoFile) demo_restarted)\<lparr>clientInfo := Some demo_client\<rparr>) \<and>
   trace (snd (registerClient demo_env demo_restarted)) = [FsRead ClientInfoFile] \<and>
   client_info_json (storage demo_provider (serverUrlHash demo_provider)) = Missing \<and>
   discoveryDocument demo_provider = None \<and>
   fst (registerClient demo_env demo_provider) = Inl NoRegistrationEndpoint \<and>
   registration_endpoint demo_metadata = Some ''https://auth.example.com/register'' \<and>
   registration_response demo_env = Inr demo_client \<and>
   fst (registerClient demo_env (demo_provider\<lparr>discoveryDocument := Some demo_metadata\<rparr>)) = Inr () \<and>
   client_info_json
     (storage (snd (registerClient demo_env (demo_provider\<lparr>discoveryDocument := Some demo_metadata\<rparr>)))
        ''0123456789abcdef'') = Json demo_client"
proof -
  have a: "staticOAuthClientInfo (options (new_provider demo_static_options ''0123456789abcdef'' demo_disk)) =
             Some demo_client"
    by (simp add: new_provider_def demo_static_options_def)
  have b: "staticOAuthClientInfo (options demo_provider) = None"
    "staticOAuthClientInfo (options (demo_provider\<lparr>discoveryDocument := Some demo_metadata\<rparr>)) = None"
    "staticOAuthClientInfo (options demo_ready) = None"
    "staticOAuthClientInfo (options demo_restarted) = None"
    by (simp_all add: demo_provider_def demo_ready_def demo_restarted_def new_provider_def
          demo_options_def)
  have c: "clientInfo demo_provider = None"
    "clientInfo (demo_provider\<lparr>discoveryDocument := Some demo_metadata\<rparr>) = None"
    "clientInfo demo_restarted = None"
    "clientInfo demo_ready = Some (demo_client\<lparr>redirect_uris := None\<rparr>)"
    by (simp_all add: demo_provider_def demo_ready_def demo_restarted_def new_provider_def)
  have d: "client_info_json (storage demo_provider (serverUrlHash demo_provider)) = Missing"
    "client_info_json (storage (demo_provider\<lparr>discoveryDocument := Some demo_metadata\<rparr>)
       (serverUrlHash (demo_provider\<lparr>discoveryDocument := Some demo_metadata\<rparr>))) = Missing"
    "client_info_json (storage demo_restarted (serverUrlHash demo_restarted)) = Json demo_client"
    by (simp_all add: demo_provider_def demo_restarted_def new_provider_def demo_disk_def
          demo_disk_registered_def saveClientInfo_def)
  have e: "discoveryDocument demo_provider = None"
    "discoveryDocument (demo_provider\<lparr>discoveryDocument := Some demo_metadata\<rparr>) = Some demo_metadata"
    "registration_endpoint demo_metadata = Some ''https://auth.example.com/register''"
    by (simp_all add: demo_provider_def new_provider_def demo_metadata_def)
  have f: "registration_response demo_env = Inr demo_client" by (simp add: demo_env_def)
  have g: "serverUrlHash (demo_provider\<lparr>discoveryDocument := Some demo_metadata\<rparr>) = ''0123456789abcdef''"
    "trace demo_restarted = []"
    by (simp_all add: demo_provider_def demo_restarted_def new_provider_def)
  have n: "\<forall>c. (Missing :: client_information json_file) \<noteq> Json c" by simp
  note t1 = client_identity_resolution [of "new_provider demo_static_options ''0123456789abcdef'' demo_disk" demo_env]
  note t2 = client_identity_resolution [of demo_ready demo_env]
  note t3 = client_identity_resolution [of demo_restarted demo_env]
  note t4 = client_identity_resolution [of demo_provider demo_env]
  note t5 = client_identity_resolution [of "demo_provider\<lparr>discoveryDocument := Some demo_metadata\<rparr>" demo_env]
  from t1 a have r1: "registerClient demo_env (new_provider demo_static_options ''0123456789abcdef'' demo_disk) =
     (Inr (), (new_provider demo_static_options ''0123456789abcdef'' demo_disk)
                \<lparr>clientInfo := Some demo_client\<rparr>)" by blast
  from t2 b(3) c(4) have r2: "registerClient demo_env demo_ready = (Inr (), demo_ready)" by blast
  from t3 b(4) c(3) d(3) have r3: "registerClient demo_env demo_restarted =
     (Inr (), (effect (FsRead ClientInfoFile) demo_restarted)\<lparr>clientInfo := Some demo_client\<rparr>)"
    "trace (snd (registerClient demo_env demo_restarted)) = trace demo_restarted @ [FsRead ClientInfoFile]"
    by blast+
  from t4 b(1) c(1) d(1) e(1) have r4: "fst (registerClient demo_env demo_provider) = Inl NoRegistrationEndpoint"
    by simp
  from t5 b(2) c(2) d(2) e(2,3) f g(1)
  have r5: "fst (registerClient demo_env (demo_provider\<lparr>discoveryDocument := Some demo_metadata\<rparr>)) = Inr () \<and>
   client_info_json
     (storage (snd (registerClient demo_env (demo_provider\<lparr>discoveryDocument := Some demo_metadata\<rparr>)))
        ''0123456789abcdef'') = Json demo_client"
    by simp
  from r1 c(4) r2 c(3) d(3) r3 g(2) d(1) e(1) r4 e(3) f r5 show ?thesis by simp
qed

section \<open>Token refresh\<close>



section \<open>Redirect URIs\<close>





section \<open>Listener teardown\<close>






section \<open>Token read path and the already-authenticated shortcut\<close>

lemma readTokens_eq:
  "readTokens st = (getTokens (storage st) (serverUrlHash st), effect (FsRead TokensFile) st)"
  by (simp add: readTokens_def Let_def)

lemma ensure_with_token:
  "has_access_token (getTokens (storage st) (serverUrlHash st)) \<Longrightarrow>
   ensureAuthenticated ev st = (Returned (), effect (FsRead TokensFile) st)"
  by (simp add: ensureAuthenticated_def readTokens_eq)

lemma ensure_starts:
  assumes "\<not> has_access_token (getTokens (storage st) (serverUrlHash st))"
    and "authenticationPromise st = None"
  shows "ensureAuthenticated ev st =
     (completion_of (fst (performAuthentication ev
         ((effect (FsRead TokensFile) st)
            \<lparr>promises := promises st @ [None], authenticationPromise := Some (length (promises st))\<rparr>))),
      (settle (length (promises st))
         (fst (performAuthentication ev
           ((effect (FsRead TokensFile) st)
              \<lparr>promises := promises st @ [None], authenticationPromise := Some (length (promises st))\<rparr>)))
         (snd (performAuthentication ev
           ((effect (FsRead TokensFile) st)
              \<lparr>promises := promises st @ [None], authenticationPromise := Some (length (promises st))\<rparr>))))
        \<lparr>authenticationPromise := None\<rparr>)"
  using assms
  by (simp add: ensureAuthenticated_def readTokens_eq new_promise_def split_beta)

lemma ensure_shares:
  assumes "\<not> has_access_token (getTokens (storage st) (serverUrlHash st))"
    and "authenticationPromise st = Some p"
  shows "ensureAuthenticated ev st = (Awaits p, effect (FsRead TokensFile) st)"
  using assms by (simp add: ensureAuthenticated_def readTokens_eq)

lemma tokens_in_progress:
  "authenticationPromise st \<noteq> None \<Longrightarrow> tokens ev st = (Returned None, st)"
  by (simp add: tokens_def)

lemma tokens_stored:
  "authenticationPromise st = None \<Longrightarrow> getTokens (storage st) (serverUrlHash st) = Some t \<Longrightarrow>
   tokens ev st = (Returned (Some t), effect (FsRead TokensFile) st)"
  by (simp add: tokens_def readTokens_eq)

lemma tokens_no_auto:
  "authenticationPromise st = None \<Longrightarrow> getTokens (storage st) (serverUrlHash st) = None \<Longrightarrow>
   \<not> (autoAuthenticate (options st) \<and> \<not> authInitialized st) \<Longrightarrow>
   tokens ev st = (Returned None, effect (FsRead TokensFile) st)"
  by (auto simp: tokens_def readTokens_eq)

lemma tokens_auto:
  "authenticationPromise st = None \<Longrightarrow> getTokens (storage st) (serverUrlHash st) = None \<Longrightarrow>
   autoAuthenticate (options st) \<Longrightarrow> \<not> authInitialized st \<Longrightarrow>
   tokens ev st =
     (case ensureAuthenticated ev (effect (FsRead TokensFile) st) of
        (Returned u, st2) \<Rightarrow>
          (Returned (getTokens (storage st2) (serverUrlHash st2)), effect (FsRead TokensFile) st2)
      | (Threw e, st2) \<Rightarrow> (Threw e, st2)
      | (Awaits p, st2) \<Rightarrow> (Awaits p, st2))"
  by (simp add: tokens_def readTokens_eq split: prod.splits completion.splits)

lemma demo_success_started:
  "fst (performAuthentication demo_env
         ((effect (FsRead TokensFile) demo_provider)
            \<lparr>promises := promises demo_provider @ [None],
             authenticationPromise := Some (length (promises demo_provider))\<rparr>)) = Inr ()"
  by (simp add: performAuthentication_unfold demo_env_def demo_provider_def
        new_provider_def demo_options_def demo_disk_def empty_partition_def
        discoverOAuthEndpoints_def registerClient_def clientInformation_def getClientInfo_def
        read_json_def discovered_registration_endpoint_def demo_metadata_def if_truthy_def truthy_def
        saveClientInformation_def initializeAuth_def performAuthorizationCodeFlow_def
        first_redirect_uri_def demo_client_def waitForAuthCode_def Let_def effect_def
        demo_callback_def requestHandler_def exchangeCodeForTokens_def saveCodeVerifier_def
        demo_URL_callback)

lemma demo_provider_idle:
  "\<not> has_access_token (getTokens (storage demo_provider) (serverUrlHash demo_provider))"
  "authenticationPromise demo_provider = None"
  "promises demo_provider = []"
  "serverUrlHash demo_provider = ''0123456789abcdef''"
  "autoAuthenticate (options demo_provider)"
  by (simp_all add: demo_provider_def new_provider_def demo_disk_def getTokens_def read_json_def
        has_access_token_def demo_options_def)

lemma performAuthentication_frame:
  "options (snd (performAuthentication ev st)) = options st \<and>
   serverUrlHash (snd (performAuthentication ev st)) = serverUrlHash st \<and>
   authenticationPromise (snd (performAuthentication ev st)) = authenticationPromise st \<and>
   promises (snd (performAuthentication ev st)) = promises st"
  by (simp add: performAuthentication_unfold split: sum.splits)

lemma performAuthentication_initialized:
  "fst (performAuthentication ev st) = Inr u \<Longrightarrow> authInitialized (snd (performAuthentication ev st))"
  by (simp add: performAuthentication_unfold split: sum.splits)

lemma demo_authenticated_facts:
  "fst (ensureAuthenticated demo_env demo_provider) = Returned ()"
  "authInitialized demo_authenticated"
  "authenticationPromise demo_authenticated = None"
  "options demo_authenticated = options demo_provider"
  "serverUrlHash demo_authenticated = ''0123456789abcdef''"
  using demo_success_started performAuthentication_initialized [OF demo_success_started]
  by (simp_all add: demo_authenticated_def ensure_starts [OF demo_provider_idle(1,2)]
        completion_of_def settle_def performAuthentication_frame demo_provider_idle)

lemma demo_in_flight_prov:
  "prov demo_in_flight =
     (effect (FsRead TokensFile) demo_provider)\<lparr>promises := [None], authenticationPromise := Some 0\<rparr>"
  "calls demo_in_flight = [Performing 0 Discovering]"
  using demo_provider_idle
  by (simp_all add: demo_in_flight_def run_def start_def pc_at_def goto_def readTokens_eq
        new_promise_def)


lemma stage_step_frame:
  "authenticationPromise (snd (stage_step g ev st)) = authenticationPromise st \<and>
   promises (snd (stage_step g ev st)) = promises st \<and>
   options (snd (stage_step g ev st)) = options st \<and>
   serverUrlHash (snd (stage_step g ev st)) = serverUrlHash st"
  by (cases g) (simp_all add: stage_step_def)

lemma exec_Advance:
  "pc_at sy k = Some (Performing p g) \<Longrightarrow>
   exec (Advance k ev) sy =
     (case fst (stage_step g ev (prov sy)) of
        Inl e \<Rightarrow> goto k (Settled p) (settle p (Inl e) (snd (stage_step g ev (prov sy)))) sy
      | Inr u \<Rightarrow>
          (case next_stage g of
             Some g' \<Rightarrow> goto k (Performing p g') (snd (stage_step g ev (prov sy))) sy
           | None \<Rightarrow> goto k (Settled p)
                       (settle p (Inr ()) ((snd (stage_step g ev (prov sy)))\<lparr>authInitialized := True\<rparr>)) sy))"
  by (simp add: split_beta split: sum.splits)

lemma demo_stage1:
  "fst (discoverOAuthEndpoints demo_env st) = Inr ()"
  "discoveryDocument (snd (discoverOAuthEndpoints demo_env st)) = Some demo_metadata"
  by (simp_all add: discoverOAuthEndpoints_def demo_env_def Let_def)

lemma demo_stage2:
  "staticOAuthClientInfo (options st) = None \<Longrightarrow> clientInfo st = None \<Longrightarrow>
   getClientInfo (storage st) (serverUrlHash st) = None \<Longrightarrow>
   discoveryDocument st = Some demo_metadata \<Longrightarrow>
   fst (registerClient demo_env st) = Inr () \<and> clientInfo (snd (registerClient demo_env st)) = Some demo_client"
  by (simp add: register_dynamic clientInformation_load discovered_registration_endpoint_def
        demo_metadata_def if_truthy_def truthy_def demo_env_def)

lemma demo_stage3:
  "fst (initializeAuth demo_env st) = Inr ()"
  by (simp add: initializeAuth_def demo_env_def Let_def)

lemma demo_stage4:
  "discoveryDocument st = Some demo_metadata \<Longrightarrow> clientInfo st = Some demo_client \<Longrightarrow>
   callbackPath (options st) = ''/oauth/callback'' \<Longrightarrow>
   fst (performAuthorizationCodeFlow demo_env st) = Inr () \<and>
   getTokens (storage (snd (performAuthorizationCodeFlow demo_env st))) (serverUrlHash st) = Some demo_tokens"
  by (simp add: performAuthorizationCodeFlow_def Let_def first_redirect_uri_def demo_client_def
        demo_env_def waitForAuthCode_def demo_callback_def requestHandler_def if_truthy_def
        truthy_def exchangeCodeForTokens_def demo_URL_callback)

lemma stage_step_simps:
  "stage_step Discovering ev st = discoverOAuthEndpoints ev st"
  "stage_step Registering ev st = registerClient ev st"
  "stage_step Initializing ev st = initializeAuth ev st"
  "stage_step Authorizing ev st = performAuthorizationCodeFlow ev st"
  by (simp_all add: stage_step_def)

lemma register_storage_other:
  "tokens_json (storage (snd (registerClient ev st)) h) = tokens_json (storage st h)"
  by (simp add: register_fields)

lemma demo_settled_facts:
  "authenticationPromise (prov demo_settled) = Some 0 \<and>
   calls demo_settled = [Settled 0] \<and>
   promises (prov demo_settled) = [Some (Inr ())] \<and>
   getTokens (storage (prov demo_settled)) (serverUrlHash (prov demo_settled)) = Some demo_tokens"
proof -
  define s0 where "s0 = prov demo_in_flight"
  define s1 where "s1 = snd (discoverOAuthEndpoints demo_env s0)"
  define s2 where "s2 = snd (registerClient demo_env s1)"
  define s3 where "s3 = snd (initializeAuth demo_env s2)"
  define s4 where "s4 = snd (performAuthorizationCodeFlow demo_env s3)"
  have f0: "options s0 = demo_options" "serverUrlHash s0 = ''0123456789abcdef''"
    "clientInfo s0 = None" "storage s0 = demo_disk" "authenticationPromise s0 = Some 0"
    "promises s0 = [None]"
    by (simp_all add: s0_def demo_in_flight_prov demo_provider_def new_provider_def)
  have f1: "options s1 = demo_options" "serverUrlHash s1 = ''0123456789abcdef''"
    "clientInfo s1 = None" "storage s1 = demo_disk" "authenticationPromise s1 = Some 0"
    "promises s1 = [None]" "discoveryDocument s1 = Some demo_metadata"
    "fst (discoverOAuthEndpoints demo_env s0) = Inr ()"
    by (simp_all add: s1_def f0 demo_stage1)
  have g: "getClientInfo (storage s1) (serverUrlHash s1) = None"
    by (simp add: f1 demo_disk_def getClientInfo_def read_json_def)
  have o: "staticOAuthClientInfo (options s1) = None" by (simp add: f1 demo_options_def)
  note r = demo_stage2 [OF o f1(3) g f1(7)]
  have f2: "options s2 = demo_options" "serverUrlHash s2 = ''0123456789abcdef''"
    "clientInfo s2 = Some demo_client" "authenticationPromise s2 = Some 0"
    "promises s2 = [None]" "discoveryDocument s2 = Some demo_metadata"
    "fst (registerClient demo_env s1) = Inr ()"
    using r by (simp_all add: s2_def f1)
  have f3: "options s3 = demo_options" "serverUrlHash s3 = ''0123456789abcdef''"
    "clientInfo s3 = Some demo_client" "authenticationPromise s3 = Some 0"
    "promises s3 = [None]" "discoveryDocument s3 = Some demo_metadata"
    "fst (initializeAuth demo_env s2) = Inr ()"
    by (simp_all add: s3_def f2 demo_stage3)
  have p: "callbackPath (options s3) = ''/oauth/callback''" by (simp add: f3 demo_options_def)
  note q = demo_stage4 [OF f3(6) f3(3) p]
  have f4: "serverUrlHash s4 = ''0123456789abcdef''" "authenticationPromise s4 = Some 0"
    "promises s4 = [None]" "fst (performAuthorizationCodeFlow demo_env s3) = Inr ()"
    "getTokens (storage s4) ''0123456789abcdef'' = Some demo_tokens"
    using q by (simp_all add: s4_def f3)
  have e: "demo_settled =
     exec (Advance 0 demo_env) (exec (Advance 0 demo_env) (exec (Advance 0 demo_env)
       (exec (Advance 0 demo_env) demo_in_flight)))"
    by (simp add: demo_settled_def demo_in_flight_def run_def)
  have e1: "exec (Advance 0 demo_env) demo_in_flight = \<lparr>prov = s1, calls = [Performing 0 Registering]\<rparr>"
    using f1(8)
    by (simp del: exec.simps add: exec_Advance [of _ _ 0 Discovering] pc_at_def demo_in_flight_prov(2)
          stage_step_simps next_stage_def goto_def s0_def [symmetric] s1_def [symmetric])
  have e2: "exec (Advance 0 demo_env) \<lparr>prov = s1, calls = [Performing 0 Registering]\<rparr> =
              \<lparr>prov = s2, calls = [Performing 0 Initializing]\<rparr>"
    using f2(7)
    by (simp del: exec.simps add: exec_Advance [of _ _ 0 Registering] pc_at_def
          stage_step_simps next_stage_def goto_def s2_def [symmetric])
  have e3: "exec (Advance 0 demo_env) \<lparr>prov = s2, calls = [Performing 0 Initializing]\<rparr> =
              \<lparr>prov = s3, calls = [Performing 0 Authorizing]\<rparr>"
    using f3(7)
    by (simp del: exec.simps add: exec_Advance [of _ _ 0 Initializing] pc_at_def
          stage_step_simps next_stage_def goto_def s3_def [symmetric])
  have e4: "exec (Advance 0 demo_env) \<lparr>prov = s3, calls = [Performing 0 Authorizing]\<rparr> =
              \<lparr>prov = settle 0 (Inr ()) (s4\<lparr>authInitialized := True\<rparr>), calls = [Settled 0]\<rparr>"
    using f4(4)
    by (simp del: exec.simps add: exec_Advance [of _ _ 0 Authorizing] pc_at_def
          stage_step_simps next_stage_def goto_def s4_def [symmetric])
  show ?thesis
    unfolding e e1 e2 e3 e4 by (simp add: settle_def f4)
qed


lemma begin_attempt_eq:
  "begin_attempt st = st\<lparr>promises := promises st @ [None], authenticationPromise := Some (length (promises st))\<rparr>"
  by (simp add: begin_attempt_def new_promise_def)

lemma demo_full:
  assumes "options st = demo_options" "serverUrlHash st = ''0123456789abcdef''"
    "clientInfo st = None" "storage st = demo_disk"
  shows "fst (performAuthentication demo_env st) = Inr () \<and>
         getTokens (storage (snd (performAuthentication demo_env st))) ''0123456789abcdef'' = Some demo_tokens"
proof -
  define s1 where "s1 = snd (discoverOAuthEndpoints demo_env st)"
  define s2 where "s2 = snd (registerClient demo_env s1)"
  define s3 where "s3 = snd (initializeAuth demo_env s2)"
  define s4 where "s4 = snd (performAuthorizationCodeFlow demo_env s3)"
  have f1: "options s1 = demo_options" "serverUrlHash s1 = ''0123456789abcdef''"
    "clientInfo s1 = None" "storage s1 = demo_disk" "discoveryDocument s1 = Some demo_metadata"
    "fst (discoverOAuthEndpoints demo_env st) = Inr ()"
    by (simp_all add: s1_def assms demo_stage1)
  have g: "getClientInfo (storage s1) (serverUrlHash s1) = None"
    by (simp add: f1 demo_disk_def getClientInfo_def read_json_def)
  have o: "staticOAuthClientInfo (options s1) = None" by (simp add: f1 demo_options_def)
  note r = demo_stage2 [OF o f1(3) g f1(5)]
  have f2: "options s2 = demo_options" "serverUrlHash s2 = ''0123456789abcdef''"
    "clientInfo s2 = Some demo_client" "discoveryDocument s2 = Some demo_metadata"
    "fst (registerClient demo_env s1) = Inr ()"
    using r by (simp_all add: s2_def f1)
  have f3: "options s3 = demo_options" "serverUrlHash s3 = ''0123456789abcdef''"
    "clientInfo s3 = Some demo_client" "discoveryDocument s3 = Some demo_metadata"
    "fst (initializeAuth demo_env s2) = Inr ()"
    by (simp_all add: s3_def f2 demo_stage3)
  have p: "callbackPath (options s3) = ''/oauth/callback''" by (simp add: f3 demo_options_def)
  note q = demo_stage4 [OF f3(4) f3(3) p]
  have f4: "fst (performAuthorizationCodeFlow demo_env s3) = Inr ()"
    "getTokens (storage s4) ''0123456789abcdef'' = Some demo_tokens"
    using q by (simp_all add: s4_def f3)
  show ?thesis
    using f1(6) f2(5) f3(5) f4
    by (simp add: performAuthentication_unfold s1_def [symmetric] s2_def [symmetric]
          s3_def [symmetric] s4_def [symmetric])
qed

lemma demo_authenticated_tokens:
  "getTokens (storage demo_authenticated) (serverUrlHash demo_authenticated) = Some demo_tokens"
proof -
  have "getTokens (storage (snd (performAuthentication demo_env
           ((effect (FsRead TokensFile) demo_provider)
              \<lparr>promises := promises demo_provider @ [None],
               authenticationPromise := Some (length (promises demo_provider))\<rparr>))))
          ''0123456789abcdef'' = Some demo_tokens"
    by (rule demo_full [THEN conjunct2]) (simp_all add: demo_provider_def new_provider_def)
  then show ?thesis
    by (simp add: demo_authenticated_def ensure_starts [OF demo_provider_idle(1,2)] settle_def
          performAuthentication_frame demo_provider_idle)
qed


text \<open>
  Claim C3, as stated, fails: after a first successful authentication and
  \<^verbatim>\<open>invalidateCredentials('tokens')\<close>, no token set is stored, auto-authenticate is
  enabled and no flow is in progress, yet \<^verbatim>\<open>tokens()\<close> returns \<^verbatim>\<open>undefined\<close> after one read
  of the file, without driving the state machine.
\<close>

theorem tokens_after_invalidation:
  "fst (ensureAuthenticated demo_env demo_provider) = Returned () \<and>
   authenticationPromise demo_invalidated = None \<and>
   autoAuthenticate (options demo_invalidated) \<and>
   getTokens (storage demo_invalidated) (serverUrlHash demo_invalidated) = None \<and>
   tokens demo_env demo_invalidated = (Returned None, effect (FsRead TokensFile) demo_invalidated)"
proof -
  have a: "authenticationPromise demo_invalidated = None"
    and b: "autoAuthenticate (options demo_invalidated)"
    and c: "authInitialized demo_invalidated"
    and h: "serverUrlHash demo_invalidated = serverUrlHash demo_authenticated"
    using demo_authenticated_facts demo_provider_idle
    by (simp_all add: demo_invalidated_def invalidateCredentials_def Let_def)
  have d: "getTokens (storage demo_invalidated) (serverUrlHash demo_invalidated) = None"
    using invalidate_leaves_no_record(1) [of ScopeTokens demo_authenticated] h
    by (simp add: demo_invalidated_def)
  from tokens_no_auto [OF a d, of demo_env] c demo_authenticated_facts(1) a b d
  show ?thesis by simp
qed


text \<open>
  Claim C3, amended. \<^verbatim>\<open>tokens()\<close> first tests for a flow in progress and then returns
  \<^verbatim>\<open>undefined\<close> without reading anything. Otherwise it returns the stored token set if
  there is one. With none stored, it drives the authentication state machine and re-reads
  the store only if auto-authenticate is enabled and no authentication has completed on
  this instance before (\<^verbatim>\<open>authInitialized\<close> is false): it throws what the attempt throws
  and otherwise returns what the store then holds. In every other case it returns
  \<^verbatim>\<open>undefined\<close>.
\<close>

theorem token_read_path:
  "(authenticationPromise st \<noteq> None \<longrightarrow> tokens ev st = (Returned None, st)) \<and>
   (authenticationPromise st = None \<longrightarrow>
      (\<forall>t. getTokens (storage st) (serverUrlHash st) = Some t \<longrightarrow>
           tokens ev st = (Returned (Some t), effect (FsRead TokensFile) st)) \<and>
      (getTokens (storage st) (serverUrlHash st) = None \<longrightarrow>
         (autoAuthenticate (options st) \<and> \<not> authInitialized st \<longrightarrow>
            fst (tokens ev st) =
              (case fst (performAuthentication ev
                           (begin_attempt (effect (FsRead TokensFile) (effect (FsRead TokensFile) st)))) of
                 Inl e \<Rightarrow> Threw e
               | Inr u \<Rightarrow>
                   Returned (getTokens
                     (storage (snd (performAuthentication ev
                        (begin_attempt (effect (FsRead TokensFile) (effect (FsRead TokensFile) st))))))
                     (serverUrlHash st))) \<and>
            authenticationPromise (snd (tokens ev st)) = None) \<and>
         (\<not> (autoAuthenticate (options st) \<and> \<not> authInitialized st) \<longrightarrow>
            tokens ev st = (Returned None, effect (FsRead TokensFile) st))))"
proof (intro conjI impI allI)
  assume "authenticationPromise st \<noteq> None"
  then show "tokens ev st = (Returned None, st)" by (rule tokens_in_progress)
next
  fix t assume "authenticationPromise st = None" "getTokens (storage st) (serverUrlHash st) = Some t"
  then show "tokens ev st = (Returned (Some t), effect (FsRead TokensFile) st)"
    by (rule tokens_stored)
next
  assume a: "authenticationPromise st = None" "getTokens (storage st) (serverUrlHash st) = None"
    and "\<not> (autoAuthenticate (options st) \<and> \<not> authInitialized st)"
  then show "tokens ev st = (Returned None, effect (FsRead TokensFile) st)"
    by (rule tokens_no_auto)
next
  assume a: "authenticationPromise st = None" "getTokens (storage st) (serverUrlHash st) = None"
    and b: "autoAuthenticate (options st) \<and> \<not> authInitialized st"
  let ?st1 = "effect (FsRead TokensFile) st"
  have n: "\<not> has_access_token (getTokens (storage ?st1) (serverUrlHash ?st1))"
    using a by (simp add: has_access_token_def)
  have p: "authenticationPromise ?st1 = None" using a by simp
  note e = ensure_starts [OF n p, of ev]
  have s: "begin_attempt (effect (FsRead TokensFile) ?st1) =
           (effect (FsRead TokensFile) ?st1)
             \<lparr>promises := promises ?st1 @ [None], authenticationPromise := Some (length (promises ?st1))\<rparr>"
    by (simp add: begin_attempt_eq)
  show "fst (tokens ev st) =
              (case fst (performAuthentication ev
                           (begin_attempt (effect (FsRead TokensFile) (effect (FsRead TokensFile) st)))) of
                 Inl e \<Rightarrow> Threw e
               | Inr u \<Rightarrow>
                   Returned (getTokens
                     (storage (snd (performAuthentication ev
                        (begin_attempt (effect (FsRead TokensFile) (effect (FsRead TokensFile) st))))))
                     (serverUrlHash st)))"
    using a b
    by (simp add: tokens_auto e s completion_of_def settle_def performAuthentication_frame
          split: sum.splits)
  show "authenticationPromise (snd (tokens ev st)) = None"
    using a b
    by (simp add: tokens_auto e s completion_of_def settle_def split: sum.splits)
qed


theorem token_read_path_witness:
  "authenticationPromise (prov demo_in_flight) \<noteq> None \<and>
   tokens demo_env (prov demo_in_flight) = (Returned None, prov demo_in_flight) \<and>
   authenticationPromise demo_authenticated = None \<and>
   getTokens (storage demo_authenticated) (serverUrlHash demo_authenticated) = Some demo_tokens \<and>
   tokens demo_env demo_authenticated =
     (Returned (Some demo_tokens), effect (FsRead TokensFile) demo_authenticated) \<and>
   authenticationPromise demo_provider = None \<and>
   getTokens (storage demo_provider) (serverUrlHash demo_provider) = None \<and>
   autoAuthenticate (options demo_provider) \<and> \<not> authInitialized demo_provider \<and>
   fst (tokens demo_env demo_provider) = Returned (Some demo_tokens) \<and>
   authenticationPromise demo_invalidated = None \<and>
   getTokens (storage demo_invalidated) (serverUrlHash demo_invalidated) = None \<and>
   authInitialized demo_invalidated \<and>
   tokens demo_env demo_invalidated = (Returned None, effect (FsRead TokensFile) demo_invalidated)"
proof -
  have a: "authenticationPromise (prov demo_in_flight) \<noteq> None"
    by (simp add: demo_in_flight_prov)
  have b: "authenticationPromise demo_authenticated = None"
    "getTokens (storage demo_authenticated) (serverUrlHash demo_authenticated) = Some demo_tokens"
    using demo_authenticated_facts demo_authenticated_tokens by simp_all
  have c: "authenticationPromise demo_provider = None"
    "getTokens (storage demo_provider) (serverUrlHash demo_provider) = None"
    "autoAuthenticate (options demo_provider)" "\<not> authInitialized demo_provider"
    "serverUrlHash demo_provider = ''0123456789abcdef''"
    by (simp_all add: demo_provider_def new_provider_def demo_options_def demo_disk_def
          getTokens_def read_json_def)
  have d: "fst (performAuthentication demo_env
                 (begin_attempt (effect (FsRead TokensFile) (effect (FsRead TokensFile) demo_provider)))) = Inr ()"
    "getTokens (storage (snd (performAuthentication demo_env
                 (begin_attempt (effect (FsRead TokensFile) (effect (FsRead TokensFile) demo_provider))))))
       ''0123456789abcdef'' = Some demo_tokens"
    by (rule demo_full [THEN conjunct1] demo_full [THEN conjunct2];
        simp add: begin_attempt_eq demo_provider_def new_provider_def)+
  have e: "authenticationPromise demo_invalidated = None"
    "authInitialized demo_invalidated"
    "serverUrlHash demo_invalidated = serverUrlHash demo_authenticated"
    using demo_authenticated_facts
    by (simp_all add: demo_invalidated_def invalidateCredentials_def Let_def)
  have f: "getTokens (storage demo_invalidated) (serverUrlHash demo_invalidated) = None"
    using invalidate_leaves_no_record(1) [of ScopeTokens demo_authenticated] e(3)
    by (simp add: demo_invalidated_def)
  show ?thesis
    using token_read_path [of "prov demo_in_flight" demo_env]
          token_read_path [of demo_authenticated demo_env]
          token_read_path [of demo_provider demo_env]
          token_read_path [of demo_invalidated demo_env]
          a b c d e f
    by simp
qed


text \<open>
  Claim C4, as stated, fails for \<^verbatim>\<open>tokens()\<close>: while an attempt is in flight, a valid token
  in the store (saved through \<^verbatim>\<open>saveTokens\<close>, or by the attempt itself before its
  \<^verbatim>\<open>finally\<close> block has run) is not returned.
\<close>

theorem tokens_hidden_while_in_flight:
  "authenticationPromise (saveTokens demo_tokens (prov demo_in_flight)) = Some 0 \<and>
   has_access_token (getTokens (storage (saveTokens demo_tokens (prov demo_in_flight)))
      (serverUrlHash (saveTokens demo_tokens (prov demo_in_flight)))) \<and>
   tokens demo_env (saveTokens demo_tokens (prov demo_in_flight)) =
     (Returned None, saveTokens demo_tokens (prov demo_in_flight)) \<and>
   authenticationPromise (prov demo_settled) = Some 0 \<and>
   has_access_token (getTokens (storage (prov demo_settled)) (serverUrlHash (prov demo_settled))) \<and>
   tokens demo_env (prov demo_settled) = (Returned None, prov demo_settled)"
  using demo_settled_facts
  by (simp add: demo_in_flight_prov tokens_in_progress has_access_token_def demo_tokens_def truthy_def)

text \<open>
  Claim C4, amended. Whenever the store holds a token set with a non-empty access token,
  \<^verbatim>\<open>ensureAuthenticated\<close> returns at once after one read of the file: no discovery, no
  registration, no bind, no token request. \<^verbatim>\<open>tokens()\<close> returns the stored set after one
  read of the file and with no network call when no authentication attempt is in flight;
  while one is in flight it returns \<^verbatim>\<open>undefined\<close>.
\<close>

theorem already_authenticated_shortcut:
  "(has_access_token (getTokens (storage st) (serverUrlHash st)) \<longrightarrow>
      ensureAuthenticated ev st = (Returned (), effect (FsRead TokensFile) st) \<and>
      filter is_network (trace (snd (ensureAuthenticated ev st))) = filter is_network (trace st)) \<and>
   (\<forall>t. getTokens (storage st) (serverUrlHash st) = Some t \<and> authenticationPromise st = None \<longrightarrow>
      tokens ev st = (Returned (Some t), effect (FsRead TokensFile) st) \<and>
      filter is_network (trace (snd (tokens ev st))) = filter is_network (trace st)) \<and>
   (authenticationPromise st \<noteq> None \<longrightarrow> tokens ev st = (Returned None, st))"
proof -
  have n: "\<not> is_network (FsRead TokensFile)"
    by (simp add: is_network_def is_discovery_def is_registration_def is_bind_def
          is_token_request_def)
  show ?thesis
    using n by (simp add: ensure_with_token tokens_stored tokens_in_progress)
qed

theorem already_authenticated_shortcut_witness:
  "has_access_token (getTokens (storage demo_authenticated) (serverUrlHash demo_authenticated)) \<and>
   ensureAuthenticated demo_env demo_authenticated =
     (Returned (), effect (FsRead TokensFile) demo_authenticated) \<and>
   getTokens (storage demo_authenticated) (serverUrlHash demo_authenticated) = Some demo_tokens \<and>
   authenticationPromise demo_authenticated = None \<and>
   tokens demo_env demo_authenticated =
     (Returned (Some demo_tokens), effect (FsRead TokensFile) demo_authenticated) \<and>
   authenticationPromise (prov demo_in_flight) \<noteq> None \<and>
   tokens demo_env (prov demo_in_flight) = (Returned None, prov demo_in_flight)"
proof -
  have a: "authenticationPromise (prov demo_in_flight) \<noteq> None"
    by (simp add: demo_in_flight_prov)
  have b: "authenticationPromise demo_authenticated = None"
    "getTokens (storage demo_authenticated) (serverUrlHash demo_authenticated) = Some demo_tokens"
    using demo_authenticated_facts demo_authenticated_tokens by simp_all
  have c: "has_access_token (Some demo_tokens)"
    by (simp add: has_access_token_def demo_tokens_def truthy_def)
  show ?thesis
    using already_authenticated_shortcut [of demo_authenticated demo_env]
          already_authenticated_shortcut [of "prov demo_in_flight" demo_env]
          a b c
    by simp
qed

section \<open>Single flight\<close>

subsection \<open>The promise bookkeeping\<close>

declare exec.simps [simp del]

lemma pc_at_goto:
  "pc_at (goto k c st sy) j = (if j = k \<and> k < length (calls sy) then Some c else pc_at sy j)"
  by (simp add: pc_at_def goto_def)

lemma prov_goto [simp]: "prov (goto k c st sy) = st"
  by (simp add: goto_def)

lemma pc_at_Some_less: "pc_at sy k = Some c \<Longrightarrow> k < length (calls sy)"
  by (simp add: pc_at_def split: if_splits)

lemma owns_goto:
  "k < length (calls sy) \<Longrightarrow>
   owns (goto k c st sy) j p =
     (if j = k then (case c of Performing q g \<Rightarrow> q = p | Settled q \<Rightarrow> q = p | _ \<Rightarrow> False)
      else owns sy j p)"
  by (simp add: owns_def pc_at_goto)

lemma promise_at_settle:
  "promise_at (settle p r st) q =
     (if q = p \<and> p < length (promises st) then Some r else promise_at st q)"
  by (simp add: promise_at_def settle_def)

lemma settle_fields [simp]:
  "authenticationPromise (settle p r st) = authenticationPromise st"
  "length (promises (settle p r st)) = length (promises st)"
  "trace (settle p r st) = trace st"
  "options (settle p r st) = options st"
  "storage (settle p r st) = storage st"
  "serverUrlHash (settle p r st) = serverUrlHash st"
  by (simp_all add: settle_def)

lemma pc_at_length [simp]: "pc_at sy (length (calls sy)) = None"
  by (simp add: pc_at_def)

lemma pc_at_Call: "pc_at (exec Call sy) j = (if j = length (calls sy) then Some Invoked else pc_at sy j)"
  by (simp add: exec.simps pc_at_def nth_append)

lemma prov_Call [simp]: "prov (exec Call sy) = prov sy"
  by (simp add: exec.simps)

lemma owns_Call: "owns (exec Call sy) j q = owns sy j q"
  by (simp add: owns_def pc_at_Call)

lemma attempt_inv_Call: "attempt_inv sy \<Longrightarrow> attempt_inv (exec Call sy)"
proof -
  assume a: "attempt_inv sy"
  have v: "prov (exec Call sy) = prov sy" by simp
  show ?thesis
    using a unfolding attempt_inv_def owns_Call v pc_at_Call
    by (auto split: if_splits)
qed

lemma readTokens_frame:
  "authenticationPromise (snd (readTokens st)) = authenticationPromise st"
  "promises (snd (readTokens st)) = promises st"
  by (simp_all add: readTokens_eq)

lemma attempt_inv_ReadDone: "attempt_inv sy \<Longrightarrow> attempt_inv (exec (ReadDone k) sy)"
proof (cases "pc_at sy k = Some Invoked")
  case False
  assume "attempt_inv sy"
  with False show ?thesis by (auto simp: exec.simps split: option.splits pc.splits)
next
  case True
  assume a: "attempt_inv sy"
  from True have k: "k < length (calls sy)" by (rule pc_at_Some_less)
  let ?r = "getTokens (storage (prov sy)) (serverUrlHash (prov sy))"
  have e: "exec (ReadDone k) sy = goto k (TokensRead ?r) (effect (FsRead TokensFile) (prov sy)) sy"
    using True by (simp add: exec.simps readTokens_eq)
  have o: "owns (exec (ReadDone k) sy) j q = owns sy j q" for j q
    using True k by (simp add: e owns_goto) (simp add: owns_def)
  have pa: "promise_at (effect (FsRead TokensFile) (prov sy)) q = promise_at (prov sy) q" for q
    by (simp add: promise_at_def)
  show ?thesis
    using a True k unfolding attempt_inv_def o
    by (auto simp: e pc_at_goto pa split: if_splits)
qed

lemma exec_skip:
  "pc_at sy k = None \<Longrightarrow> exec (ReadDone k) sy = sy"
  "pc_at sy k = None \<Longrightarrow> exec (Resume k) sy = sy"
  "pc_at sy k = None \<Longrightarrow> exec (Advance k ev) sy = sy"
  "pc_at sy k = None \<Longrightarrow> exec (Finally k) sy = sy"
  "pc_at sy k = None \<Longrightarrow> exec (Adopt k) sy = sy"
  by (simp_all add: exec.simps)

lemma exec_Resume:
  "pc_at sy k = Some c \<Longrightarrow>
   exec (Resume k) sy =
     (case c of
        TokensRead r \<Rightarrow>
          if has_access_token r then goto k (Completed HadToken (Inr ())) (prov sy) sy
          else (case authenticationPromise (prov sy) of
                  Some p \<Rightarrow> goto k (Sharing p) (prov sy) sy
                | None \<Rightarrow> goto k (Performing (length (promises (prov sy))) Discovering)
                            (begin_attempt (prov sy)) sy)
      | _ \<Rightarrow> sy)"
  by (simp add: exec.simps begin_attempt_def new_promise_def split: pc.splits option.splits)

lemma exec_Advance_at:
  "pc_at sy k = Some c \<Longrightarrow>
   exec (Advance k ev) sy =
     (case c of
        Performing p g \<Rightarrow>
          (case fst (stage_step g ev (prov sy)) of
             Inl e \<Rightarrow> goto k (Settled p) (settle p (Inl e) (snd (stage_step g ev (prov sy)))) sy
           | Inr u \<Rightarrow>
               (case next_stage g of
                  Some g' \<Rightarrow> goto k (Performing p g') (snd (stage_step g ev (prov sy))) sy
                | None \<Rightarrow> goto k (Settled p)
                            (settle p (Inr ()) ((snd (stage_step g ev (prov sy)))\<lparr>authInitialized := True\<rparr>)) sy))
      | _ \<Rightarrow> sy)"
  by (simp add: exec.simps split_beta split: pc.splits sum.splits)

lemma exec_Finally:
  "pc_at sy k = Some c \<Longrightarrow>
   exec (Finally k) sy =
     (case c of
        Settled p \<Rightarrow>
          (case promise_at (prov sy) p of
             Some r \<Rightarrow> goto k (Completed (Owned p) r) ((prov sy)\<lparr>authenticationPromise := None\<rparr>) sy
           | None \<Rightarrow> sy)
      | _ \<Rightarrow> sy)"
  by (simp add: exec.simps split: pc.splits)

lemma exec_Adopt:
  "pc_at sy k = Some c \<Longrightarrow>
   exec (Adopt k) sy =
     (case c of
        Sharing p \<Rightarrow>
          (case promise_at (prov sy) p of
             Some r \<Rightarrow> goto k (Completed (Shared p) r) (prov sy) sy
           | None \<Rightarrow> sy)
      | _ \<Rightarrow> sy)"
  by (simp add: exec.simps split: pc.splits)

lemma begin_attempt_fields [simp]:
  "authenticationPromise (begin_attempt st) = Some (length (promises st))"
  "promises (begin_attempt st) = promises st @ [None]"
  "trace (begin_attempt st) = trace st"
  "options (begin_attempt st) = options st"
  "storage (begin_attempt st) = storage st"
  "serverUrlHash (begin_attempt st) = serverUrlHash st"
  "clientInfo (begin_attempt st) = clientInfo st"
  by (simp_all add: begin_attempt_eq)

lemma promise_at_begin:
  "promise_at (begin_attempt st) q = (if q = length (promises st) then None else promise_at st q)"
  by (simp add: promise_at_def nth_append)

lemma promise_at_Some_less: "promise_at st p = Some r \<Longrightarrow> p < length (promises st)"
  by (simp add: promise_at_def split: if_splits)

lemma attempt_inv_Resume:
  assumes a: "attempt_inv sy"
  shows "attempt_inv (exec (Resume k) sy)"
proof (cases "pc_at sy k")
  case None
  with a show ?thesis by (simp add: exec_skip)
next
  case (Some c)
  then have k: "k < length (calls sy)" by (rule pc_at_Some_less)
  show ?thesis
  proof (cases c)
    case (TokensRead r)
    show ?thesis
    proof (cases "has_access_token r")
      case True
      with a Some TokensRead k show ?thesis
        unfolding attempt_inv_def
        by (simp add: exec_Resume owns_goto pc_at_goto)
    next
      case False
      show ?thesis
      proof (cases "authenticationPromise (prov sy)")
        case (Some p)
        with a \<open>pc_at sy k = Some c\<close> TokensRead k False show ?thesis
          unfolding attempt_inv_def
          by (simp add: exec_Resume owns_goto pc_at_goto)
      next
        case None
        have no: "\<not> owns sy j q" for j q
          using a None unfolding attempt_inv_def by auto
        have np: "pc_at sy j \<noteq> Some (Performing q g)" "pc_at sy j \<noteq> Some (Settled q)" for j q g
          using no [of j q] by (auto simp: owns_def)
        have lt: "promise_at (prov sy) q = Some r' \<Longrightarrow> q \<noteq> length (promises (prov sy))" for q r'
          by (auto dest: promise_at_Some_less)
        from a \<open>pc_at sy k = Some c\<close> TokensRead k False None show ?thesis
          unfolding attempt_inv_def
          by (simp add: exec_Resume owns_goto pc_at_goto no np promise_at_begin lt)
      qed
    qed
  qed (use a Some in \<open>simp_all add: exec_Resume\<close>)
qed

lemma promise_at_stage [simp]:
  "promise_at (snd (stage_step g ev st)) q = promise_at st q"
  by (simp add: promise_at_def stage_step_frame)

lemma promise_at_update [simp]:
  "promise_at (st\<lparr>authInitialized := b\<rparr>) q = promise_at st q"
  "promise_at (st\<lparr>authenticationPromise := a\<rparr>) q = promise_at st q"
  by (simp_all add: promise_at_def)

lemma attempt_inv_owner_step:
  assumes inv: "attempt_inv sy"
    and pc: "pc_at sy k = Some (Performing p g)"
    and ap: "authenticationPromise st' = Some p"
    and len: "length (promises st') = length (promises (prov sy))"
    and oth: "\<And>q. q \<noteq> p \<Longrightarrow> promise_at st' q = promise_at (prov sy) q"
    and c': "(\<exists>g'. c' = Performing p g' \<and> promise_at st' p = None) \<or>
             (c' = Settled p \<and> promise_at st' p \<noteq> None)"
  shows "attempt_inv (goto k c' st' sy)"
proof -
  from pc have k: "k < length (calls sy)" by (rule pc_at_Some_less)
  have ow: "owns sy k p" using pc by (simp add: owns_def)
  have ap0: "authenticationPromise (prov sy) = Some p"
    using inv ow unfolding attempt_inv_def by blast
  have pl: "p < length (promises (prov sy))"
    using inv ap0 unfolding attempt_inv_def by blast
  have other: "j \<noteq> k \<Longrightarrow> \<not> owns sy j q" for j q
    using inv ow unfolding attempt_inv_def by blast
  have p0: "promise_at (prov sy) p = None"
    using inv pc unfolding attempt_inv_def by blast
  have own': "owns (goto k c' st' sy) j q \<longleftrightarrow> j = k \<and> q = p" for j q
    using c' k other [of j q] by (auto simp: owns_goto)
  have pcs: "pc_at (goto k c' st' sy) j = (if j = k then Some c' else pc_at sy j)" for j
    using k by (simp add: pc_at_goto)
  have i1: "\<forall>j q. owns (goto k c' st' sy) j q \<longrightarrow> authenticationPromise (prov (goto k c' st' sy)) = Some q"
    by (simp add: own' ap)
  have i2: "\<forall>j j' q q'. owns (goto k c' st' sy) j q \<and> owns (goto k c' st' sy) j' q' \<longrightarrow> j = j'"
    by (simp add: own')
  have i3: "\<forall>j q h. pc_at (goto k c' st' sy) j = Some (Performing q h) \<longrightarrow>
              promise_at (prov (goto k c' st' sy)) q = None"
  proof (intro allI impI)
    fix j q h assume h: "pc_at (goto k c' st' sy) j = Some (Performing q h)"
    then have "owns (goto k c' st' sy) j q" by (simp add: owns_def)
    then have jq: "j = k" "q = p" by (simp_all add: own')
    with h c' show "promise_at (prov (goto k c' st' sy)) q = None" by (auto simp: pcs)
  qed
  have i4: "\<forall>j q. pc_at (goto k c' st' sy) j = Some (Settled q) \<longrightarrow>
              promise_at (prov (goto k c' st' sy)) q \<noteq> None"
  proof (intro allI impI)
    fix j q assume h: "pc_at (goto k c' st' sy) j = Some (Settled q)"
    then have "owns (goto k c' st' sy) j q" by (simp add: owns_def)
    then have jq: "j = k" "q = p" by (simp_all add: own')
    with h c' show "promise_at (prov (goto k c' st' sy)) q \<noteq> None" by (auto simp: pcs)
  qed
  have i5: "\<forall>j q r. pc_at (goto k c' st' sy) j = Some (Completed (Owned q) r) \<or>
                   pc_at (goto k c' st' sy) j = Some (Completed (Shared q) r) \<longrightarrow>
                   promise_at (prov (goto k c' st' sy)) q = Some r"
  proof (intro allI impI)
    fix j q r
    assume h: "pc_at (goto k c' st' sy) j = Some (Completed (Owned q) r) \<or>
               pc_at (goto k c' st' sy) j = Some (Completed (Shared q) r)"
    with c' have jk: "j \<noteq> k" by (auto simp: pcs)
    with h have "pc_at sy j = Some (Completed (Owned q) r) \<or> pc_at sy j = Some (Completed (Shared q) r)"
      by (simp add: pcs)
    then have r: "promise_at (prov sy) q = Some r" using inv unfolding attempt_inv_def by blast
    with p0 have "q \<noteq> p" by auto
    with r show "promise_at (prov (goto k c' st' sy)) q = Some r" by (simp add: oth)
  qed
  have i6: "\<forall>q. authenticationPromise (prov (goto k c' st' sy)) = Some q \<longrightarrow>
              q < length (promises (prov (goto k c' st' sy)))"
    using pl by (simp add: ap len)
  show ?thesis
    unfolding attempt_inv_def using i1 i2 i3 i4 i5 i6 by blast
qed

lemma attempt_inv_Advance:
  assumes a: "attempt_inv sy"
  shows "attempt_inv (exec (Advance k ev) sy)"
proof (cases "pc_at sy k")
  case None
  with a show ?thesis by (simp add: exec_skip)
next
  case (Some c)
  show ?thesis
  proof (cases c)
    case (Performing p g)
    with Some have pc: "pc_at sy k = Some (Performing p g)" by simp
    have ow: "owns sy k p" using pc by (simp add: owns_def)
    have ap: "authenticationPromise (prov sy) = Some p"
      using a ow unfolding attempt_inv_def by blast
    have pl: "p < length (promises (prov sy))"
      using a ap unfolding attempt_inv_def by blast
    have p0: "promise_at (prov sy) p = None"
      using a pc unfolding attempt_inv_def by blast
    let ?st = "snd (stage_step g ev (prov sy))"
    show ?thesis
    proof (cases "fst (stage_step g ev (prov sy))")
      case (Inl e)
      have "attempt_inv (goto k (Settled p) (settle p (Inl e) ?st) sy)"
        by (rule attempt_inv_owner_step [OF a pc])
           (simp_all add: ap pl stage_step_frame promise_at_settle)
      with pc Inl show ?thesis by (simp add: exec_Advance_at)
    next
      case (Inr u)
      show ?thesis
      proof (cases "next_stage g")
        case None
        have "attempt_inv (goto k (Settled p) (settle p (Inr ()) (?st\<lparr>authInitialized := True\<rparr>)) sy)"
          by (rule attempt_inv_owner_step [OF a pc])
             (simp_all add: ap pl stage_step_frame promise_at_settle)
        with pc Inr None show ?thesis by (simp add: exec_Advance_at)
      next
        case (Some g')
        have "attempt_inv (goto k (Performing p g') ?st sy)"
          by (rule attempt_inv_owner_step [OF a pc])
             (simp_all add: ap pl p0 stage_step_frame)
        with pc Inr Some show ?thesis by (simp add: exec_Advance_at)
      qed
    qed
  qed (use a Some in \<open>simp_all add: exec_Advance_at\<close>)
qed

lemma attempt_inv_Finally:
  assumes a: "attempt_inv sy"
  shows "attempt_inv (exec (Finally k) sy)"
proof (cases "pc_at sy k")
  case None
  with a show ?thesis by (simp add: exec_skip)
next
  case (Some c)
  then have k: "k < length (calls sy)" by (rule pc_at_Some_less)
  show ?thesis
  proof (cases c)
    case (Settled p)
    have ow: "owns sy k p" using Some Settled by (simp add: owns_def)
    have other: "j \<noteq> k \<Longrightarrow> \<not> owns sy j q" for j q
      using a ow unfolding attempt_inv_def by blast
    have others: "j \<noteq> k \<Longrightarrow> pc_at sy j \<noteq> Some (Performing q g')"
      "j \<noteq> k \<Longrightarrow> pc_at sy j \<noteq> Some (Settled q)" for j q g'
      using other [of j q] by (auto simp: owns_def)
    show ?thesis
      using a Some Settled k others
      unfolding attempt_inv_def
      by (simp add: exec_Finally owns_goto pc_at_goto other split: option.splits)
  qed (use a Some in \<open>simp_all add: exec_Finally\<close>)
qed

lemma attempt_inv_Adopt:
  assumes a: "attempt_inv sy"
  shows "attempt_inv (exec (Adopt k) sy)"
proof (cases "pc_at sy k")
  case None
  with a show ?thesis by (simp add: exec_skip)
next
  case (Some c)
  then have k: "k < length (calls sy)" by (rule pc_at_Some_less)
  show ?thesis
  proof (cases c)
    case (Sharing p)
    show ?thesis
    proof (cases "promise_at (prov sy) p")
      case None
      with a Some Sharing show ?thesis by (simp add: exec_Adopt)
    next
      case (Some r)
      let ?sy = "goto k (Completed (Shared p) r) (prov sy) sy"
      have o: "owns ?sy j q = owns sy j q" for j q
        using \<open>pc_at sy k = Some c\<close> Sharing k by (simp add: owns_goto) (simp add: owns_def)
      have pcs: "pc_at ?sy j = (if j = k then Some (Completed (Shared p) r) else pc_at sy j)" for j
        using k by (simp add: pc_at_goto)
      have i3: "\<forall>j q h. pc_at ?sy j = Some (Performing q h) \<longrightarrow> promise_at (prov ?sy) q = None"
        using a unfolding attempt_inv_def by (auto simp: pcs split: if_splits)
      have i4: "\<forall>j q. pc_at ?sy j = Some (Settled q) \<longrightarrow> promise_at (prov ?sy) q \<noteq> None"
        using a unfolding attempt_inv_def by (auto simp: pcs split: if_splits)
      have i5: "\<forall>j q r'. pc_at ?sy j = Some (Completed (Owned q) r') \<or>
                   pc_at ?sy j = Some (Completed (Shared q) r') \<longrightarrow>
                   promise_at (prov ?sy) q = Some r'"
        using a Some unfolding attempt_inv_def by (auto simp: pcs split: if_splits)
      have "attempt_inv ?sy"
        unfolding attempt_inv_def o using a i3 i4 i5
        unfolding attempt_inv_def by simp
      with \<open>pc_at sy k = Some c\<close> Sharing Some show ?thesis by (simp add: exec_Adopt)
    qed
  qed (use a Some in \<open>simp_all add: exec_Adopt\<close>)
qed

lemma attempt_inv_exec: "attempt_inv sy \<Longrightarrow> attempt_inv (exec e sy)"
  by (cases e)
     (simp_all add: attempt_inv_Call attempt_inv_ReadDone attempt_inv_Resume attempt_inv_Advance
        attempt_inv_Finally attempt_inv_Adopt)

lemma attempt_inv_run: "attempt_inv sy \<Longrightarrow> attempt_inv (run es sy)"
  unfolding run_def by (induction es arbitrary: sy) (simp_all add: attempt_inv_exec)

lemma attempt_inv_start: "authenticationPromise st = None \<Longrightarrow> attempt_inv (start st)"
  by (simp add: attempt_inv_def start_def owns_def pc_at_def)

subsection \<open>Counting the requests of one attempt\<close>

lemma kinds [simp]:
  "is_discovery (HttpGet a b)" "\<not> is_discovery (HttpPost a c)" "\<not> is_discovery (Listen n)"
  "\<not> is_discovery Close" "\<not> is_discovery (OpenBrowser u)" "\<not> is_discovery (FsRead f)"
  "\<not> is_discovery (FsWrite f)" "\<not> is_discovery (FsUnlink f)" "\<not> is_discovery (RandomBytes n)"
  "\<not> is_registration (HttpGet a b)" "is_registration (HttpPost a (JsonBody m))"
  "\<not> is_registration (HttpPost a (FormBody ps))" "\<not> is_registration (Listen n)"
  "\<not> is_registration Close" "\<not> is_registration (OpenBrowser u)" "\<not> is_registration (FsRead f)"
  "\<not> is_registration (FsWrite f)" "\<not> is_registration (FsUnlink f)" "\<not> is_registration (RandomBytes n)"
  "\<not> is_bind (HttpGet a b)" "\<not> is_bind (HttpPost a c)" "is_bind (Listen n)"
  "\<not> is_bind Close" "\<not> is_bind (OpenBrowser u)" "\<not> is_bind (FsRead f)"
  "\<not> is_bind (FsWrite f)" "\<not> is_bind (FsUnlink f)" "\<not> is_bind (RandomBytes n)"
  "\<not> is_token_request (HttpGet a b)" "\<not> is_token_request (HttpPost a (JsonBody m))"
  "is_token_request (HttpPost a (FormBody ps))" "\<not> is_token_request (Listen n)"
  "\<not> is_token_request Close" "\<not> is_token_request (OpenBrowser u)" "\<not> is_token_request (FsRead f)"
  "\<not> is_token_request (FsWrite f)" "\<not> is_token_request (FsUnlink f)" "\<not> is_token_request (RandomBytes n)"
  by (simp_all add: is_discovery_def is_registration_def is_bind_def is_token_request_def)

lemma not_registration_form: "\<not> is_registration (HttpPost a c) \<or> (\<exists>m. c = JsonBody m)"
  by (cases c) simp_all

lemma grown_trace: "trace st' = trace st \<Longrightarrow> grown st0 a b c d st' = grown st0 a b c d st"
  by (simp add: grown_def count_def)

lemma grown_effect:
  "\<not> is_discovery e \<Longrightarrow> \<not> is_registration e \<Longrightarrow> \<not> is_bind e \<Longrightarrow> \<not> is_token_request e \<Longrightarrow>
   grown st0 a b c d (effect e st) = grown st0 a b c d st"
  by (simp add: grown_def count_def)

lemma registrations_due_cong:
  "options st' = options st \<Longrightarrow> clientInfo st' = clientInfo st \<Longrightarrow>
   storage st' = storage st \<Longrightarrow> serverUrlHash st' = serverUrlHash st \<Longrightarrow> registrations_due st' = registrations_due st"
  by (simp add: registrations_due_def clientInformation_def Let_def split: option.splits)

lemma grown_discover:
  "grown st0 a b c d st \<Longrightarrow> grown st0 (Suc a) b c d (snd (discoverOAuthEndpoints ev st))"
  by (simp add: grown_def count_def)

lemma registrations_due_discover: "registrations_due (snd (discoverOAuthEndpoints ev st)) = registrations_due st"
  by (rule registrations_due_cong) simp_all

lemma register_requests:
  "filter is_registration (trace (snd (registerClient ev st))) =
     filter is_registration (trace st) @
       (if registrations_due st = 1 \<and> truthy (discovered_registration_endpoint st)
        then [HttpPost (the (discovered_registration_endpoint st)) (JsonBody (clientMetadata st))]
        else [])"
proof (cases "staticOAuthClientInfo (options st)")
  case (Some c)
  then show ?thesis by (simp add: register_static registrations_due_def)
next
  case None
  show ?thesis
  proof (cases "fst (clientInformation st)")
    case (Some c)
    with None show ?thesis by (simp add: register_cached clientInformation_fields registrations_due_def)
  next
    case nc: None
    with None show ?thesis
      by (auto simp: register_dynamic clientInformation_fields registrations_due_def if_truthy_def truthy_def
          split: option.splits sum.splits)
  qed
qed

lemma register_ok_endpoint:
  "fst (registerClient ev st) = Inr u \<Longrightarrow> registrations_due st = 1 \<Longrightarrow> truthy (discovered_registration_endpoint st)"
  by (auto simp: registrations_due_def register_dynamic if_truthy_def split: option.splits if_splits)

lemma grown_register:
  assumes "grown st0 a b c d st"
  shows "(fst (registerClient ev st) = Inr () \<longrightarrow> grown st0 a (b + registrations_due st) c d (snd (registerClient ev st))) \<and>
         (\<exists>b'. b' \<le> 1 \<and> grown st0 a (b + b') c d (snd (registerClient ev st)))"
proof -
  have o: "filter is_discovery (trace (snd (registerClient ev st))) = filter is_discovery (trace st)"
    "filter is_bind (trace (snd (registerClient ev st))) = filter is_bind (trace st)"
    "filter is_token_request (trace (snd (registerClient ev st))) = filter is_token_request (trace st)"
    by (rule register_filter; simp)+
  have d: "registrations_due st = 0 \<or> registrations_due st = 1" by (simp add: registrations_due_def)
  have ok: "fst (registerClient ev st) = Inr () \<Longrightarrow> grown st0 a (b + registrations_due st) c d (snd (registerClient ev st))"
    using assms d register_ok_endpoint [of ev st "()"]
    by (auto simp: grown_def count_def o register_requests)
  have "grown st0 a (b + (if registrations_due st = 1 \<and> truthy (discovered_registration_endpoint st) then 1 else 0)) c d
          (snd (registerClient ev st))"
    using assms by (simp add: grown_def count_def o register_requests)
  then have "\<exists>b'. b' \<le> 1 \<and> grown st0 a (b + b') c d (snd (registerClient ev st))"
    by (intro exI [of _ "if registrations_due st = 1 \<and> truthy (discovered_registration_endpoint st) then 1 else 0"]) simp
  with ok show ?thesis by blast
qed

lemma grown_init:
  "grown st0 a b c d st \<Longrightarrow> grown st0 a b (Suc c) d (snd (initializeAuth ev st))"
  by (simp add: grown_def count_def)

lemma exchange_requests:
  "length (filter is_token_request (trace (snd (exchangeCodeForTokens ev code v st)))) \<le>
     Suc (length (filter is_token_request (trace st))) \<and>
   (fst (exchangeCodeForTokens ev code v st) = Inr u \<longrightarrow>
     length (filter is_token_request (trace (snd (exchangeCodeForTokens ev code v st)))) =
       Suc (length (filter is_token_request (trace st))))"
  by (simp add: exchangeCodeForTokens_def Let_def split: option.splits sum.splits)

lemma flow_requests:
  "length (filter is_token_request (trace (snd (performAuthorizationCodeFlow ev st)))) \<le>
     Suc (length (filter is_token_request (trace st))) \<and>
   length (filter is_token_request (trace st)) \<le>
     length (filter is_token_request (trace (snd (performAuthorizationCodeFlow ev st)))) \<and>
   (fst (performAuthorizationCodeFlow ev st) = Inr u \<longrightarrow>
     length (filter is_token_request (trace (snd (performAuthorizationCodeFlow ev st)))) =
       Suc (length (filter is_token_request (trace st))))"
proof -
  let ?pk = "generatePKCEChallenge (randomBytes ev) (sha256 ev)"
  let ?st1 = "saveCodeVerifier (verifier ?pk) (effect (RandomBytes 32) st)"
  have t1: "filter is_token_request (trace ?st1) = filter is_token_request (trace st)" by simp
  show ?thesis
  proof (cases "\<exists>d c ru. discoveryDocument st = Some d \<and> clientInfo st = Some c \<and>
                  first_redirect_uri c = Inr ru \<and> open_error ev = None")
    case False
    then show ?thesis
      by (auto simp: performAuthorizationCodeFlow_def Let_def
          split: option.splits sum.splits)
  next
    case True
    then obtain d c ru where h: "discoveryDocument st = Some d" "clientInfo st = Some c"
      "first_redirect_uri c = Inr ru" "open_error ev = None" by blast
    let ?st2 = "effect (OpenBrowser (authorizationUrl st d c (challenge ?pk) ru)) ?st1"
    let ?w = "waitForAuthCode ev ?st2"
    have t3: "filter is_token_request (trace (snd ?w)) = filter is_token_request (trace st)"
      by simp
    show ?thesis
    proof (cases "fst ?w")
      case (Inl e)
      with h t3 show ?thesis
        by (simp add: performAuthorizationCodeFlow_def Let_def split_beta)
    next
      case (Inr code)
      with h have e: "performAuthorizationCodeFlow ev st =
                        exchangeCodeForTokens ev code (verifier ?pk) (snd ?w)"
        by (simp add: performAuthorizationCodeFlow_def Let_def split_beta)
      have g: "length (filter is_token_request (trace (snd ?w))) \<le>
               length (filter is_token_request (trace (snd (exchangeCodeForTokens ev code (verifier ?pk) (snd ?w)))))"
        by (simp add: exchangeCodeForTokens_def Let_def split: option.splits sum.splits)
      from exchange_requests [of ev code "verifier ?pk" "snd ?w" u] g
      show ?thesis unfolding e t3 by simp
    qed
  qed
qed

lemma grown_flow:
  assumes "grown st0 a b c d st"
  shows "(fst (performAuthorizationCodeFlow ev st) = Inr () \<longrightarrow>
            grown st0 a b c (Suc d) (snd (performAuthorizationCodeFlow ev st))) \<and>
         (\<exists>d'. d' \<le> 1 \<and> grown st0 a b c (d + d') (snd (performAuthorizationCodeFlow ev st)))"
proof -
  have o: "filter is_discovery (trace (snd (performAuthorizationCodeFlow ev st))) = filter is_discovery (trace st)"
    "filter is_bind (trace (snd (performAuthorizationCodeFlow ev st))) = filter is_bind (trace st)"
    "filter is_registration (trace (snd (performAuthorizationCodeFlow ev st))) = filter is_registration (trace st)"
    by (rule flow_filter; simp)+
  let ?n = "length (filter is_token_request (trace (snd (performAuthorizationCodeFlow ev st))))"
  let ?m = "length (filter is_token_request (trace st))"
  from flow_requests [of ev st "()"]
  have le: "?n \<le> Suc ?m" and ge: "?m \<le> ?n"
    and eq: "fst (performAuthorizationCodeFlow ev st) = Inr () \<Longrightarrow> ?n = Suc ?m"
    by simp_all
  have ok: "fst (performAuthorizationCodeFlow ev st) = Inr () \<longrightarrow>
            grown st0 a b c (Suc d) (snd (performAuthorizationCodeFlow ev st))"
    using assms eq by (simp add: grown_def count_def o)
  have "grown st0 a b c (d + (?n - ?m)) (snd (performAuthorizationCodeFlow ev st))"
    using assms ge by (simp add: grown_def count_def o)
  moreover have "?n - ?m \<le> 1" using le by simp
  ultimately have "\<exists>d'. d' \<le> 1 \<and> grown st0 a b c (d + d') (snd (performAuthorizationCodeFlow ev st))"
    by blast
  with ok show ?thesis by blast
qed

subsection \<open>The first attempt\<close>

lemma progress_idle [simp]:
  "progress st0 st Invoked" "progress st0 st (TokensRead r)" "progress st0 st (Sharing p)"
  "progress st0 st (Completed og r')"
  by (simp_all add: progress_def)

lemma progress_cong:
  assumes "\<And>a b c d. grown st0 a b c d st' = grown st0 a b c d st" "registrations_due st' = registrations_due st"
    "\<And>p. promise_at st' p = promise_at st p"
  shows "progress st0 st' c = progress st0 st c"
  using assms
  by (simp add: progress_def split: pc.splits stage.splits)

lemma progress_non_owner:
  assumes "\<And>q. \<not> owns sy j q" and "pc_at sy j = Some c"
  shows "progress st0 st c"
proof (cases c)
  case (Performing p g)
  with assms(1) [of p] assms(2) show ?thesis by (simp add: owns_def)
next
  case (Settled p)
  with assms(1) [of p] assms(2) show ?thesis by (simp add: owns_def)
qed simp_all

lemma first_flight_goto:
  assumes k: "k < length (calls sy)"
    and pk: "progress st0 st' c'"
    and others: "\<And>j c. j \<noteq> k \<Longrightarrow> pc_at sy j = Some c \<Longrightarrow> progress st0 st' c"
    and none: "authenticationPromise st' = None \<Longrightarrow>
                 promises st' = promises st0 \<and> grown st0 0 0 0 0 st' \<and> registrations_due st' = registrations_due st0"
    and some: "\<And>p. authenticationPromise st' = Some p \<Longrightarrow>
                 length (promises st') = Suc (length (promises st0)) \<and> (\<exists>j. owns (goto k c' st' sy) j p)"
  shows "first_flight st0 (goto k c' st' sy)"
  unfolding first_flight_def
proof (intro conjI allI impI)
  fix j c assume "pc_at (goto k c' st' sy) j = Some c"
  then show "progress st0 (prov (goto k c' st' sy)) c"
    using k pk others [of j c] by (auto simp: pc_at_goto split: if_splits)
qed (use none some in \<open>simp_all\<close>)

lemma first_flight_start:
  "authenticationPromise st = None \<Longrightarrow> first_flight st (start st)"
  by (simp add: first_flight_def start_def grown_def pc_at_def)

lemma first_flight_Call:
  assumes "first_flight st0 sy"
  shows "first_flight st0 (exec Call sy)"
  using assms unfolding first_flight_def
  by (auto simp: owns_Call pc_at_Call split: if_splits)

lemma registrations_due_read [simp]: "registrations_due (effect (FsRead TokensFile) st) = registrations_due st"
  by (rule registrations_due_cong) simp_all

lemma promise_at_effect [simp]: "promise_at (effect e st) p = promise_at st p"
  by (simp add: promise_at_def)

lemma first_flight_ReadDone:
  assumes ff: "first_flight st0 sy"
  shows "first_flight st0 (exec (ReadDone k) sy)"
proof (cases "pc_at sy k = Some Invoked")
  case False
  then have "exec (ReadDone k) sy = sy"
    by (simp add: exec.simps split: option.splits pc.splits)
  with ff show ?thesis by simp
next
  case True
  then have k: "k < length (calls sy)" by (rule pc_at_Some_less)
  let ?st = "effect (FsRead TokensFile) (prov sy)"
  let ?r = "getTokens (storage (prov sy)) (serverUrlHash (prov sy))"
  have e: "exec (ReadDone k) sy = goto k (TokensRead ?r) ?st sy"
    using True by (simp add: exec.simps readTokens_eq)
  have g: "grown st0 a b c d ?st = grown st0 a b c d (prov sy)" for a b c d
    by (rule grown_effect) simp_all
  have pc: "progress st0 ?st c = progress st0 (prov sy) c" for c
    by (rule progress_cong) (simp_all add: g)
  have o: "owns (goto k (TokensRead ?r) ?st sy) j q = owns sy j q" for j q
    using True k by (simp add: owns_goto) (simp add: owns_def)
  show ?thesis
    unfolding e
    by (rule first_flight_goto [OF k])
       (use ff in \<open>auto simp: first_flight_def pc g o\<close>)
qed

lemma registrations_due_begin [simp]: "registrations_due (begin_attempt st) = registrations_due st"
  by (rule registrations_due_cong) simp_all

lemma grown_begin [simp]: "grown st0 a b c d (begin_attempt st) = grown st0 a b c d st"
  by (rule grown_trace) simp

lemma first_flight_Resume:
  assumes ff: "first_flight st0 sy" and ai: "attempt_inv sy"
  shows "first_flight st0 (exec (Resume k) sy)"
proof (cases "pc_at sy k")
  case None
  with ff show ?thesis by (simp add: exec_skip)
next
  case (Some c)
  then have k: "k < length (calls sy)" by (rule pc_at_Some_less)
  show ?thesis
  proof (cases c)
    case (TokensRead r)
    have nk: "\<not> owns sy k q" for q using Some TokensRead by (simp add: owns_def)
    have o: "owns (goto k c' (prov sy) sy) j q = owns sy j q"
      if "c' = Completed HadToken (Inr ()) \<or> (\<exists>p. c' = Sharing p)" for c' j q
      using that k nk [of q] by (auto simp: owns_goto)
    show ?thesis
    proof (cases "has_access_token r")
      case True
      have "first_flight st0 (goto k (Completed HadToken (Inr ())) (prov sy) sy)"
        by (rule first_flight_goto [OF k]) (use ff in \<open>auto simp: first_flight_def o\<close>)
      with Some TokensRead True show ?thesis by (simp add: exec_Resume)
    next
      case False
      show ?thesis
      proof (cases "authenticationPromise (prov sy)")
        case (Some p)
        have "first_flight st0 (goto k (Sharing p) (prov sy) sy)"
          by (rule first_flight_goto [OF k]) (use ff in \<open>auto simp: first_flight_def o\<close>)
        with \<open>pc_at sy k = Some c\<close> TokensRead False Some show ?thesis by (simp add: exec_Resume)
      next
        case None
        have no: "\<not> owns sy j q" for j q
          using ai None unfolding attempt_inv_def by auto
        from ff None have base: "promises (prov sy) = promises st0" "grown st0 0 0 0 0 (prov sy)"
          "registrations_due (prov sy) = registrations_due st0"
          by (simp_all add: first_flight_def)
        let ?p = "length (promises (prov sy))"
        have "first_flight st0 (goto k (Performing ?p Discovering) (begin_attempt (prov sy)) sy)"
        proof (rule first_flight_goto [OF k])
          show "progress st0 (begin_attempt (prov sy)) (Performing ?p Discovering)"
            using base by (simp add: progress_def)
          show "progress st0 (begin_attempt (prov sy)) c'" if "pc_at sy j = Some c'" for j c'
            using no that by (rule progress_non_owner)
          show "authenticationPromise (begin_attempt (prov sy)) = None \<Longrightarrow>
                promises (begin_attempt (prov sy)) = promises st0 \<and>
                grown st0 0 0 0 0 (begin_attempt (prov sy)) \<and> registrations_due (begin_attempt (prov sy)) = registrations_due st0"
            by simp
          show "length (promises (begin_attempt (prov sy))) = Suc (length (promises st0)) \<and>
                (\<exists>j. owns (goto k (Performing ?p Discovering) (begin_attempt (prov sy)) sy) j q)"
            if "authenticationPromise (begin_attempt (prov sy)) = Some q" for q
            using that k base by (auto simp: owns_goto)
        qed
        with \<open>pc_at sy k = Some c\<close> TokensRead False None show ?thesis by (simp add: exec_Resume)
      qed
    qed
  qed (use ff Some in \<open>simp_all add: exec_Resume\<close>)
qed

lemma first_flight_Adopt:
  assumes ff: "first_flight st0 sy"
  shows "first_flight st0 (exec (Adopt k) sy)"
proof (cases "pc_at sy k")
  case None
  with ff show ?thesis by (simp add: exec_skip)
next
  case (Some c)
  then have k: "k < length (calls sy)" by (rule pc_at_Some_less)
  show ?thesis
  proof (cases c)
    case (Sharing p)
    have nk: "\<not> owns sy k q" for q using Some Sharing by (simp add: owns_def)
    have o: "owns (goto k (Completed (Shared p) r) (prov sy) sy) j q = owns sy j q" for r j q
      using k nk [of q] by (auto simp: owns_goto)
    show ?thesis
    proof (cases "promise_at (prov sy) p")
      case None
      with ff Some Sharing show ?thesis by (simp add: exec_Adopt)
    next
      case (Some r)
      have "first_flight st0 (goto k (Completed (Shared p) r) (prov sy) sy)"
        by (rule first_flight_goto [OF k]) (use ff in \<open>auto simp: first_flight_def o\<close>)
      with \<open>pc_at sy k = Some c\<close> Sharing Some show ?thesis by (simp add: exec_Adopt)
    qed
  qed (use ff Some in \<open>simp_all add: exec_Adopt\<close>)
qed

lemma registrations_due_le: "registrations_due st \<le> 1"
  by (simp add: registrations_due_def)

lemma grown_settle [simp]:
  "grown st0 a b c d (settle p r st) = grown st0 a b c d st"
  "grown st0 a b c d (st\<lparr>authInitialized := x\<rparr>) = grown st0 a b c d st"
  by (rule grown_trace; simp)+

lemma stage_progress:
  assumes pr: "progress st0 st (Performing p g)"
  shows "(fst (stage_step g ev st) = Inr () \<longrightarrow>
            (case next_stage g of
               Some g' \<Rightarrow> progress st0 (snd (stage_step g ev st)) (Performing p g')
             | None \<Rightarrow> grown st0 1 (registrations_due st0) 1 1 (snd (stage_step g ev st)))) \<and>
         (\<exists>a b c d. a \<le> 1 \<and> b \<le> 1 \<and> c \<le> 1 \<and> d \<le> 1 \<and>
            grown st0 a b c d (snd (stage_step g ev st)))"
proof (cases g)
  case Discovering
  with pr have g: "grown st0 0 0 0 0 st" and d: "registrations_due st = registrations_due st0" by (simp_all add: progress_def)
  from grown_discover [OF g, of ev] have g': "grown st0 1 0 0 0 (snd (discoverOAuthEndpoints ev st))"
    by simp
  then have "\<exists>a b c d. a \<le> 1 \<and> b \<le> 1 \<and> c \<le> 1 \<and> d \<le> 1 \<and>
               grown st0 a b c d (snd (discoverOAuthEndpoints ev st))"
    by (intro exI [of _ 1] exI [of _ 0]) simp
  with g' d Discovering show ?thesis
    by (simp add: stage_step_def next_stage_def progress_def registrations_due_discover)
next
  case Registering
  with pr have g: "grown st0 1 0 0 0 st" and d: "registrations_due st = registrations_due st0" by (simp_all add: progress_def)
  from grown_register [OF g, of ev]
  have ok: "fst (registerClient ev st) = Inr () \<longrightarrow> grown st0 1 (registrations_due st) 0 0 (snd (registerClient ev st))"
    and ex: "\<exists>b'. b' \<le> 1 \<and> grown st0 1 b' 0 0 (snd (registerClient ev st))"
    by simp_all
  from ex have "\<exists>a b c d. a \<le> 1 \<and> b \<le> 1 \<and> c \<le> 1 \<and> d \<le> 1 \<and>
               grown st0 a b c d (snd (registerClient ev st))"
    by (metis le_refl zero_le)
  with ok d Registering show ?thesis
    by (simp add: stage_step_def next_stage_def progress_def)
next
  case Initializing
  with pr have g: "grown st0 1 (registrations_due st0) 0 0 st" by (simp add: progress_def)
  from grown_init [OF g, of ev] have g': "grown st0 1 (registrations_due st0) 1 0 (snd (initializeAuth ev st))"
    by simp
  then have "\<exists>a b c d. a \<le> 1 \<and> b \<le> 1 \<and> c \<le> 1 \<and> d \<le> 1 \<and>
               grown st0 a b c d (snd (initializeAuth ev st))"
    using registrations_due_le [of st0] by (metis le_refl zero_le)
  with g' Initializing show ?thesis
    by (simp add: stage_step_def next_stage_def progress_def)
next
  case Authorizing
  with pr have g: "grown st0 1 (registrations_due st0) 1 0 st" by (simp add: progress_def)
  from grown_flow [OF g, of ev]
  have ok: "fst (performAuthorizationCodeFlow ev st) = Inr () \<longrightarrow>
              grown st0 1 (registrations_due st0) 1 1 (snd (performAuthorizationCodeFlow ev st))"
    and ex: "\<exists>d'. d' \<le> 1 \<and> grown st0 1 (registrations_due st0) 1 d' (snd (performAuthorizationCodeFlow ev st))"
    by simp_all
  from ex have "\<exists>a b c d. a \<le> 1 \<and> b \<le> 1 \<and> c \<le> 1 \<and> d \<le> 1 \<and>
               grown st0 a b c d (snd (performAuthorizationCodeFlow ev st))"
    using registrations_due_le [of st0] by (metis le_refl)
  with ok Authorizing show ?thesis
    by (simp add: stage_step_def next_stage_def)
qed

lemma first_flight_Advance:
  assumes ff: "first_flight st0 sy" and ai: "attempt_inv sy"
  shows "first_flight st0 (exec (Advance k ev) sy)"
proof (cases "pc_at sy k")
  case None
  with ff show ?thesis by (simp add: exec_skip)
next
  case (Some c)
  then have k: "k < length (calls sy)" by (rule pc_at_Some_less)
  show ?thesis
  proof (cases c)
    case (Performing p g)
    with Some have pc: "pc_at sy k = Some (Performing p g)" by simp
    have ow: "owns sy k p" using pc by (simp add: owns_def)
    have ap: "authenticationPromise (prov sy) = Some p"
      using ai ow unfolding attempt_inv_def by blast
    have pl: "p < length (promises (prov sy))"
      using ai ap unfolding attempt_inv_def by blast
    have other: "j \<noteq> k \<Longrightarrow> \<not> owns sy j q" for j q
      using ai ow unfolding attempt_inv_def by blast
    from ff ap have len: "length (promises (prov sy)) = Suc (length (promises st0))"
      by (simp add: first_flight_def)
    from ff pc have pr: "progress st0 (prov sy) (Performing p g)"
      by (simp add: first_flight_def)
    let ?st = "snd (stage_step g ev (prov sy))"
    note sp = stage_progress [OF pr, of ev]
    have step: "first_flight st0 (goto k c' st' sy)"
      if a: "authenticationPromise st' = Some p" and l: "length (promises st') = length (promises (prov sy))"
        and c: "(\<exists>g'. c' = Performing p g') \<or> c' = Settled p" and p': "progress st0 st' c'"
      for c' st'
    proof (rule first_flight_goto [OF k p'])
      show "progress st0 st' c''" if "j \<noteq> k" "pc_at sy j = Some c''" for j c''
        using other [OF that(1)] that(2) by (rule progress_non_owner)
      show "authenticationPromise st' = None \<Longrightarrow>
              promises st' = promises st0 \<and> grown st0 0 0 0 0 st' \<and> registrations_due st' = registrations_due st0"
        using a by simp
      show "length (promises st') = Suc (length (promises st0)) \<and> (\<exists>j. owns (goto k c' st' sy) j q)"
        if "authenticationPromise st' = Some q" for q
        using that a l len c k by (auto simp: owns_goto)
    qed
    show ?thesis
    proof (cases "fst (stage_step g ev (prov sy))")
      case (Inl e)
      have "first_flight st0 (goto k (Settled p) (settle p (Inl e) ?st) sy)"
        by (rule step)
           (use sp pl in \<open>simp_all add: ap stage_step_frame progress_def promise_at_settle\<close>)
      with pc Inl show ?thesis by (simp add: exec_Advance_at)
    next
      case (Inr u)
      then have ok: "fst (stage_step g ev (prov sy)) = Inr ()" by simp
      show ?thesis
      proof (cases "next_stage g")
        case None
        have "first_flight st0
                (goto k (Settled p) (settle p (Inr ()) (?st\<lparr>authInitialized := True\<rparr>)) sy)"
          by (rule step)
             (use sp ok None pl in \<open>simp_all add: ap stage_step_frame progress_def\<close>)
        with pc Inr None show ?thesis by (simp add: exec_Advance_at)
      next
        case (Some g')
        have "first_flight st0 (goto k (Performing p g') ?st sy)"
          by (rule step) (use sp ok Some in \<open>simp_all add: ap stage_step_frame\<close>)
        with pc Inr Some show ?thesis by (simp add: exec_Advance_at)
      qed
    qed
  qed (use ff Some in \<open>simp_all add: exec_Advance_at\<close>)
qed

lemma phase_one_exec:
  assumes "first_flight st0 sy \<and> attempt_inv sy" and "\<not> is_Finally e"
  shows "first_flight st0 (exec e sy) \<and> attempt_inv (exec e sy)"
  using assms
  by (cases e)
     (simp_all add: attempt_inv_exec first_flight_Call first_flight_ReadDone first_flight_Resume
        first_flight_Advance first_flight_Adopt)

lemma phase_one_run:
  assumes "first_flight st0 sy \<and> attempt_inv sy" and "\<forall>e \<in> set es. \<not> is_Finally e"
  shows "first_flight st0 (run es sy) \<and> attempt_inv (run es sy)"
  using assms unfolding run_def
proof (induction es arbitrary: sy)
  case Nil
  then show ?case by simp
next
  case (Cons e es)
  from Cons.prems have "first_flight st0 (exec e sy) \<and> attempt_inv (exec e sy)"
    by (intro phase_one_exec) simp_all
  with Cons.IH [of "exec e sy"] Cons.prems show ?case by simp
qed

subsection \<open>Consequences\<close>

lemma completion_trace:
  "is_completion e \<Longrightarrow> trace (prov (exec e sy)) = trace (prov sy)"
proof (cases e)
  case (Finally k)
  show ?thesis
    by (cases "pc_at sy k")
       (simp_all add: Finally exec_skip exec_Finally split: pc.splits option.splits)
next
  case (Adopt k)
  show ?thesis
    by (cases "pc_at sy k")
       (simp_all add: Adopt exec_skip exec_Adopt split: pc.splits option.splits)
qed simp_all

lemma completions_trace:
  "\<forall>e \<in> set es. is_completion e \<Longrightarrow> trace (prov (run es sy)) = trace (prov sy)"
  unfolding run_def
  by (induction es arbitrary: sy) (simp_all add: completion_trace)

lemma run_append: "run (es @ es') sy = run es' (run es sy)"
  by (simp add: run_def)

lemma in_flight_owns: "in_flight sy k \<Longrightarrow> \<exists>p. owns sy k p"
  by (auto simp: in_flight_def owns_def split: option.splits pc.splits)

lemma one_in_flight:
  "attempt_inv sy \<Longrightarrow> in_flight sy i \<Longrightarrow> in_flight sy j \<Longrightarrow> i = j"
proof -
  assume inv: "attempt_inv sy" and i: "in_flight sy i" and j: "in_flight sy j"
  from i obtain p where p: "owns sy i p" by (blast dest: in_flight_owns)
  from j obtain q where q: "owns sy j q" by (blast dest: in_flight_owns)
  from inv have "\<forall>k k' p p'. owns sy k p \<and> owns sy k' p' \<longrightarrow> k = k'"
    unfolding attempt_inv_def by blast
  with p q show "i = j" by blast
qed

lemma same_outcome:
  assumes "attempt_inv sy"
    and "pc_at sy k = Some (Completed (Owned p) r) \<or> pc_at sy k = Some (Completed (Shared p) r)"
    and "pc_at sy k' = Some (Completed (Owned p) r') \<or> pc_at sy k' = Some (Completed (Shared p) r')"
  shows "r = r'"
proof -
  from assms(1,2) have "promise_at (prov sy) p = Some r" unfolding attempt_inv_def by blast
  moreover from assms(1,3) have "promise_at (prov sy) p = Some r'" unfolding attempt_inv_def by blast
  ultimately show ?thesis by simp
qed

lemma first_flight_bounds:
  assumes ff: "first_flight st0 sy"
  shows "length (promises (prov sy)) \<le> Suc (length (promises st0)) \<and>
         (\<exists>a b c d. a \<le> 1 \<and> b \<le> 1 \<and> c \<le> 1 \<and> d \<le> 1 \<and> grown st0 a b c d (prov sy))"
proof (cases "authenticationPromise (prov sy)")
  case None
  with ff have "promises (prov sy) = promises st0" "grown st0 0 0 0 0 (prov sy)"
    by (simp_all add: first_flight_def)
  then have "length (promises (prov sy)) \<le> Suc (length (promises st0))"
    and "(0::nat) \<le> 1 \<and> (0::nat) \<le> 1 \<and> (0::nat) \<le> 1 \<and> (0::nat) \<le> 1 \<and> grown st0 0 0 0 0 (prov sy)"
    by simp_all
  then show ?thesis by blast
next
  case (Some p)
  with ff obtain k where len: "length (promises (prov sy)) = Suc (length (promises st0))"
    and ow: "owns sy k p" by (auto simp: first_flight_def)
  from ow obtain c where pc: "pc_at sy k = Some c" and c: "(\<exists>g. c = Performing p g) \<or> c = Settled p"
    by (auto simp: owns_def split: option.splits pc.splits)
  from ff pc have pr: "progress st0 (prov sy) c" by (simp add: first_flight_def)
  have "\<exists>a b c d. a \<le> 1 \<and> b \<le> 1 \<and> c \<le> 1 \<and> d \<le> 1 \<and> grown st0 a b c d (prov sy)"
  proof (cases c)
    case (Performing q g)
    with pr show ?thesis
      using registrations_due_le [of st0]
      by (cases g) (simp_all add: progress_def, (metis le_refl zero_le)+)
  next
    case (Settled q)
    with pr show ?thesis by (simp add: progress_def)
  qed (use c in simp_all)
  with len show ?thesis by simp
qed

text \<open>The four stages run one after the other are \<^verbatim>\<open>_performAuthentication\<close>.\<close>

lemma attempt_agrees:
  assumes pc: "pc_at sy k = Some (Performing p Discovering)"
  shows "run [Advance k ev, Advance k ev, Advance k ev, Advance k ev] sy =
           goto k (Settled p)
             (settle p (fst (performAuthentication ev (prov sy)))
                (snd (performAuthentication ev (prov sy)))) sy"
proof -
  from pc have k: "k < length (calls sy)" by (rule pc_at_Some_less)
  have gg: "\<And>c c' st st'. goto k c' st' (goto k c st sy) = goto k c' st' sy"
    by (simp add: goto_def)
  have settled: "\<And>st. exec (Advance k ev) (goto k (Settled p) st sy) = goto k (Settled p) st sy"
    using k by (simp add: exec_Advance_at [of _ _ "Settled p"] pc_at_goto)
  have step: "\<And>g st. exec (Advance k ev) (goto k (Performing p g) st sy) =
      (case fst (stage_step g ev st) of
         Inl e \<Rightarrow> goto k (Settled p) (settle p (Inl e) (snd (stage_step g ev st))) sy
       | Inr u \<Rightarrow>
          (case next_stage g of
             Some g' \<Rightarrow> goto k (Performing p g') (snd (stage_step g ev st)) sy
           | None \<Rightarrow> goto k (Settled p)
                       (settle p (Inr ()) ((snd (stage_step g ev st))\<lparr>authInitialized := True\<rparr>)) sy))"
    using k by (simp add: exec_Advance_at [of _ _ "Performing p g" for g] pc_at_goto prov_goto gg
                   split: sum.splits option.splits)
  have first: "exec (Advance k ev) sy =
      (case fst (discoverOAuthEndpoints ev (prov sy)) of
         Inl e \<Rightarrow> goto k (Settled p) (settle p (Inl e) (snd (discoverOAuthEndpoints ev (prov sy)))) sy
       | Inr u \<Rightarrow> goto k (Performing p Registering) (snd (discoverOAuthEndpoints ev (prov sy))) sy)"
    by (simp add: exec_Advance_at [OF pc] stage_step_simps next_stage_def split: sum.splits)
  show ?thesis
    unfolding run_def
    by (simp add: first step settled stage_step_simps next_stage_def performAuthentication_unfold
          split: sum.splits)
qed

subsection \<open>Two schedules\<close>

lemma demo_waiting:
  "prov (run [Call, ReadDone 0, Resume 0, Call, ReadDone 1] (start demo_provider)) =
     effect (FsRead TokensFile) (prov demo_in_flight)"
  "calls (run [Call, ReadDone 0, Resume 0, Call, ReadDone 1] (start demo_provider)) =
     [Performing 0 Discovering, TokensRead None]"
proof -
  have r: "run [Call, ReadDone 0, Resume 0, Call, ReadDone 1] (start demo_provider) =
           exec (ReadDone 1) (exec Call demo_in_flight)"
    by (simp add: demo_in_flight_def run_def)
  have c: "exec Call demo_in_flight =
             \<lparr>prov = prov demo_in_flight, calls = [Performing 0 Discovering, Invoked]\<rparr>"
    by (simp add: exec.simps demo_in_flight_prov(2))
  have g: "getTokens (storage (prov demo_in_flight)) (serverUrlHash (prov demo_in_flight)) = None"
    by (simp add: demo_in_flight_prov(1) demo_provider_def new_provider_def demo_disk_def
          getTokens_def read_json_def)
  show "prov (run [Call, ReadDone 0, Resume 0, Call, ReadDone 1] (start demo_provider)) =
     effect (FsRead TokensFile) (prov demo_in_flight)"
    unfolding r c by (simp add: exec.simps pc_at_def readTokens_eq g goto_def)
  show "calls (run [Call, ReadDone 0, Resume 0, Call, ReadDone 1] (start demo_provider)) =
     [Performing 0 Discovering, TokensRead None]"
    unfolding r c by (simp add: exec.simps pc_at_def readTokens_eq g goto_def)
qed

lemma demo_joined_facts:
  "calls (run demo_joined (start demo_provider)) = [Settled 0, Sharing 0]"
  "promises (prov (run demo_joined (start demo_provider))) = [Some (Inr ())]"
proof -
  define w where "w = run [Call, ReadDone 0, Resume 0, Call, ReadDone 1] (start demo_provider)"
  define w' where "w' = exec (Resume 1) w"
  have pw: "prov w = effect (FsRead TokensFile) (prov demo_in_flight)"
    and cw: "calls w = [Performing 0 Discovering, TokensRead None]"
    by (simp_all only: w_def demo_waiting)
  have a: "authenticationPromise (prov w) = Some 0"
    by (simp add: pw demo_in_flight_prov(1))
  have w1: "w' = \<lparr>prov = prov w, calls = [Performing 0 Discovering, Sharing 0]\<rparr>"
    by (simp add: w'_def exec_Resume [of _ _ "TokensRead None"] pc_at_def cw a has_access_token_def
          goto_def)
  have r: "run demo_joined (start demo_provider) =
           run [Advance 0 demo_env, Advance 0 demo_env, Advance 0 demo_env, Advance 0 demo_env] w'"
    by (simp add: demo_joined_def w'_def w_def run_def)
  have pc: "pc_at w' 0 = Some (Performing 0 Discovering)"
    by (simp add: w1 pc_at_def)
  have f: "options (prov w') = demo_options" "serverUrlHash (prov w') = ''0123456789abcdef''"
    "clientInfo (prov w') = None" "storage (prov w') = demo_disk" "promises (prov w') = [None]"
    by (simp_all add: w1 pw demo_in_flight_prov(1) demo_provider_def new_provider_def)
  note d = demo_full [OF f(1-4)]
  note fr = performAuthentication_frame [of demo_env "prov w'"]
  show "calls (run demo_joined (start demo_provider)) = [Settled 0, Sharing 0]"
    unfolding r attempt_agrees [OF pc] by (simp add: goto_def w1)
  show "promises (prov (run demo_joined (start demo_provider))) = [Some (Inr ())]"
    unfolding r attempt_agrees [OF pc] using d fr by (simp add: settle_def f)
qed

lemma demo_joined_completed:
  "calls (run (demo_joined @ [Finally 0, Adopt 1]) (start demo_provider)) =
     [Completed (Owned 0) (Inr ()), Completed (Shared 0) (Inr ())]"
proof -
  define sy where "sy = run demo_joined (start demo_provider)"
  have c: "calls sy = [Settled 0, Sharing 0]" and p: "promises (prov sy) = [Some (Inr ())]"
    by (simp_all add: sy_def demo_joined_facts)
  have r: "run (demo_joined @ [Finally 0, Adopt 1]) (start demo_provider) =
           exec (Adopt 1) (exec (Finally 0) sy)"
    by (simp add: run_def sy_def)
  have f: "exec (Finally 0) sy =
           \<lparr>prov = (prov sy)\<lparr>authenticationPromise := None\<rparr>,
            calls = [Completed (Owned 0) (Inr ()), Sharing 0]\<rparr>"
    by (simp add: exec_Finally [of _ _ "Settled 0"] pc_at_def c promise_at_def p goto_def)
  show ?thesis
    unfolding r f
    by (simp add: exec_Adopt [of _ _ "Sharing 0"] pc_at_def promise_at_def p goto_def)
qed

lemma demo_late_facts:
  "calls (run demo_late (start demo_provider)) =
     [Completed (Owned 0) (Inl (DiscoveryFailed ''connect ECONNREFUSED'')), Performing 1 Registering]"
  "count is_discovery (prov (run demo_late (start demo_provider))) = 2"
proof -
  define s0 where "s0 = prov demo_in_flight"
  define s1 where "s1 = settle 0 (Inl (DiscoveryFailed ''connect ECONNREFUSED''))
                          (snd (discoverOAuthEndpoints demo_env_down s0))"
  define s2 where "s2 = effect (FsRead TokensFile) (s1\<lparr>authenticationPromise := None\<rparr>)"
  define s3 where "s3 = begin_attempt s2"
  define s4 where "s4 = snd (discoverOAuthEndpoints demo_env s3)"
  have r: "run demo_late (start demo_provider) =
     exec (Advance 1 demo_env) (exec (Resume 1) (exec (ReadDone 1) (exec (Finally 0)
       (exec (Advance 0 demo_env_down) (exec Call demo_in_flight)))))"
    by (simp add: demo_late_def demo_in_flight_def run_def)
  have e1: "exec Call demo_in_flight = \<lparr>prov = s0, calls = [Performing 0 Discovering, Invoked]\<rparr>"
    by (simp add: exec.simps demo_in_flight_prov(2) s0_def)
  have d: "fst (discoverOAuthEndpoints demo_env_down s0) = Inl (DiscoveryFailed ''connect ECONNREFUSED'')"
    by (simp add: discoverOAuthEndpoints_def demo_env_down_def Let_def)
  have e2: "exec (Advance 0 demo_env_down) \<lparr>prov = s0, calls = [Performing 0 Discovering, Invoked]\<rparr> =
            \<lparr>prov = s1, calls = [Settled 0, Invoked]\<rparr>"
    by (simp add: exec_Advance_at [of _ _ "Performing 0 Discovering"] pc_at_def stage_step_simps d
          goto_def s1_def)
  have p1: "promises s1 = [Some (Inl (DiscoveryFailed ''connect ECONNREFUSED''))]"
    by (simp add: s1_def settle_def s0_def demo_in_flight_prov(1))
  have e3: "exec (Finally 0) \<lparr>prov = s1, calls = [Settled 0, Invoked]\<rparr> =
            \<lparr>prov = s1\<lparr>authenticationPromise := None\<rparr>,
             calls = [Completed (Owned 0) (Inl (DiscoveryFailed ''connect ECONNREFUSED'')), Invoked]\<rparr>"
    by (simp add: exec_Finally [of _ _ "Settled 0"] pc_at_def promise_at_def p1 goto_def)
  have g: "getTokens (storage s1) (serverUrlHash s1) = None"
    by (simp add: s1_def settle_def s0_def demo_in_flight_prov(1) demo_provider_def new_provider_def
          demo_disk_def getTokens_def read_json_def)
  have e4: "exec (ReadDone 1) \<lparr>prov = s1\<lparr>authenticationPromise := None\<rparr>,
             calls = [Completed (Owned 0) (Inl (DiscoveryFailed ''connect ECONNREFUSED'')), Invoked]\<rparr> =
            \<lparr>prov = s2,
             calls = [Completed (Owned 0) (Inl (DiscoveryFailed ''connect ECONNREFUSED'')), TokensRead None]\<rparr>"
    by (simp add: exec.simps pc_at_def readTokens_eq g goto_def s2_def)
  have a2: "authenticationPromise s2 = None" "length (promises s2) = 1"
    by (simp_all add: s2_def p1)
  have e5: "exec (Resume 1) \<lparr>prov = s2,
             calls = [Completed (Owned 0) (Inl (DiscoveryFailed ''connect ECONNREFUSED'')), TokensRead None]\<rparr> =
            \<lparr>prov = s3,
             calls = [Completed (Owned 0) (Inl (DiscoveryFailed ''connect ECONNREFUSED'')),
                      Performing 1 Discovering]\<rparr>"
    by (simp add: exec_Resume [of _ _ "TokensRead None"] pc_at_def has_access_token_def a2 goto_def
          s3_def)
  have e6: "exec (Advance 1 demo_env) \<lparr>prov = s3,
             calls = [Completed (Owned 0) (Inl (DiscoveryFailed ''connect ECONNREFUSED'')),
                      Performing 1 Discovering]\<rparr> =
            \<lparr>prov = s4,
             calls = [Completed (Owned 0) (Inl (DiscoveryFailed ''connect ECONNREFUSED'')),
                      Performing 1 Registering]\<rparr>"
    by (simp add: exec_Advance_at [of _ _ "Performing 1 Discovering"] pc_at_def stage_step_simps
          demo_stage1 next_stage_def goto_def s4_def)
  have t: "filter is_discovery (trace s0) = []"
    by (simp add: s0_def demo_in_flight_prov(1) demo_provider_def new_provider_def)
  show "calls (run demo_late (start demo_provider)) =
     [Completed (Owned 0) (Inl (DiscoveryFailed ''connect ECONNREFUSED'')), Performing 1 Registering]"
    unfolding r e1 e2 e3 e4 e5 e6 by simp
  show "count is_discovery (prov (run demo_late (start demo_provider))) = 2"
    unfolding r e1 e2 e3 e4 e5 e6
    by (simp add: count_def s4_def s3_def s2_def s1_def settle_def begin_attempt_eq t)
qed

text \<open>
  Claim C1, as stated, fails: \<^verbatim>\<open>ensureAuthenticated\<close> tests
  \<^verbatim>\<open>this.authenticationPromise\<close> only after \<^verbatim>\<open>await getTokens\<close>. A call made while an
  attempt is in flight, whose continuation runs after that attempt's \<^verbatim>\<open>finally\<close> block,
  finds no promise and starts a flow of its own: here the first attempt fails at discovery,
  and the second call sends a second discovery request and goes on to registration. And
  the token test comes first: with a token in the store, a call made while an attempt is
  recorded returns at once instead of taking that attempt's promise.
\<close>

theorem second_flow_after_settlement:
  "in_flight (run [Call, ReadDone 0, Resume 0, Call] (start demo_provider)) 0 \<and>
   pc_at (run [Call, ReadDone 0, Resume 0, Call] (start demo_provider)) 1 = Some Invoked \<and>
   pc_at (run demo_late (start demo_provider)) 0 =
     Some (Completed (Owned 0) (Inl (DiscoveryFailed ''connect ECONNREFUSED''))) \<and>
   pc_at (run demo_late (start demo_provider)) 1 = Some (Performing 1 Registering) \<and>
   count is_discovery (prov (run demo_late (start demo_provider))) = 2 \<and>
   authenticationPromise (saveTokens demo_tokens (prov demo_in_flight)) = Some 0 \<and>
   fst (ensureAuthenticated demo_env (saveTokens demo_tokens (prov demo_in_flight))) = Returned ()"
proof -
  have r: "run [Call, ReadDone 0, Resume 0, Call] (start demo_provider) = exec Call demo_in_flight"
    by (simp add: demo_in_flight_def run_def)
  have c: "calls (exec Call demo_in_flight) = [Performing 0 Discovering, Invoked]"
    by (simp add: exec.simps demo_in_flight_prov(2))
  have t: "has_access_token (getTokens (storage (saveTokens demo_tokens (prov demo_in_flight)))
             (serverUrlHash (saveTokens demo_tokens (prov demo_in_flight))))"
    by (simp add: getTokens_saveTokens has_access_token_def demo_tokens_def truthy_def)
  have e: "fst (ensureAuthenticated demo_env (saveTokens demo_tokens (prov demo_in_flight))) =
             Returned ()"
    unfolding ensure_with_token [OF t] by simp
  have a: "authenticationPromise (saveTokens demo_tokens (prov demo_in_flight)) = Some 0"
    by (simp add: demo_in_flight_prov(1))
  have l: "pc_at (run demo_late (start demo_provider)) 0 =
             Some (Completed (Owned 0) (Inl (DiscoveryFailed ''connect ECONNREFUSED'')))"
    "pc_at (run demo_late (start demo_provider)) 1 = Some (Performing 1 Registering)"
    unfolding pc_at_def demo_late_facts by simp_all
  have i: "in_flight (run [Call, ReadDone 0, Resume 0, Call] (start demo_provider)) 0"
    "pc_at (run [Call, ReadDone 0, Resume 0, Call] (start demo_provider)) 1 = Some Invoked"
    unfolding r in_flight_def pc_at_def c by simp_all
  from i l demo_late_facts(2) a e show ?thesis by blast
qed

text \<open>
  Claim C1, amended. At any moment at most one call runs an authentication attempt. A call
  whose continuation after the token read finds no access token and finds an attempt recorded
  in \<^verbatim>\<open>this.authenticationPromise\<close> starts nothing and takes that attempt's promise, and
  the calls completed through one promise all end with the outcome it was settled with. The
  \<^verbatim>\<open>finally\<close> block and the adoption of an outcome add no effect. As long as no
  \<^verbatim>\<open>finally\<close> block has run, any number of calls create at most one promise and make at
  most one discovery request, one registration request, one bind and one token request; when
  the attempt has succeeded they have made exactly one discovery request, one bind, one token
  request, and one registration request if there was neither a static nor a stored identity
  and none otherwise.
\<close>

theorem single_flight:
  assumes "authenticationPromise st = None"
  shows "(\<forall>i j. in_flight (run es (start st)) i \<and> in_flight (run es (start st)) j \<longrightarrow> i = j) \<and>
         (\<forall>k r p. pc_at (run es (start st)) k = Some (TokensRead r) \<and> \<not> has_access_token r \<and>
                   authenticationPromise (prov (run es (start st))) = Some p \<longrightarrow>
                   exec (Resume k) (run es (start st)) =
                     goto k (Sharing p) (prov (run es (start st))) (run es (start st))) \<and>
         (\<forall>k k' p r r'.
             (pc_at (run es (start st)) k = Some (Completed (Owned p) r) \<or>
              pc_at (run es (start st)) k = Some (Completed (Shared p) r)) \<and>
             (pc_at (run es (start st)) k' = Some (Completed (Owned p) r') \<or>
              pc_at (run es (start st)) k' = Some (Completed (Shared p) r')) \<longrightarrow> r = r') \<and>
         (\<forall>es'. (\<forall>e \<in> set es'. is_completion e) \<longrightarrow>
                 trace (prov (run (es @ es') (start st))) = trace (prov (run es (start st)))) \<and>
         ((\<forall>e \<in> set es. \<not> is_Finally e) \<longrightarrow>
            length (promises (prov (run es (start st)))) \<le> Suc (length (promises st)) \<and>
            count is_discovery (prov (run es (start st))) \<le> Suc (count is_discovery st) \<and>
            count is_registration (prov (run es (start st))) \<le> Suc (count is_registration st) \<and>
            count is_bind (prov (run es (start st))) \<le> Suc (count is_bind st) \<and>
            count is_token_request (prov (run es (start st))) \<le> Suc (count is_token_request st) \<and>
            (\<forall>k p. pc_at (run es (start st)) k = Some (Settled p) \<and>
                    promise_at (prov (run es (start st))) p = Some (Inr ()) \<longrightarrow>
                    count is_discovery (prov (run es (start st))) = Suc (count is_discovery st) \<and>
                    count is_registration (prov (run es (start st))) = count is_registration st + registrations_due st \<and>
                    count is_bind (prov (run es (start st))) = Suc (count is_bind st) \<and>
                    count is_token_request (prov (run es (start st))) = Suc (count is_token_request st)))"
proof -
  define sy where "sy = run es (start st)"
  have inv: "attempt_inv sy"
    unfolding sy_def using assms by (intro attempt_inv_run attempt_inv_start)
  have a: "\<forall>i j. in_flight sy i \<and> in_flight sy j \<longrightarrow> i = j"
    using one_in_flight [OF inv] by blast
  have b: "\<forall>k r p. pc_at sy k = Some (TokensRead r) \<and> \<not> has_access_token r \<and>
                   authenticationPromise (prov sy) = Some p \<longrightarrow>
                   exec (Resume k) sy = goto k (Sharing p) (prov sy) sy"
    by (simp add: exec_Resume [of _ _ "TokensRead r" for r])
  have c: "\<forall>k k' p r r'.
             (pc_at sy k = Some (Completed (Owned p) r) \<or> pc_at sy k = Some (Completed (Shared p) r)) \<and>
             (pc_at sy k' = Some (Completed (Owned p) r') \<or> pc_at sy k' = Some (Completed (Shared p) r'))
             \<longrightarrow> r = r'"
    using same_outcome [OF inv] by blast
  have d: "\<forall>es'. (\<forall>e \<in> set es'. is_completion e) \<longrightarrow>
                 trace (prov (run (es @ es') (start st))) = trace (prov sy)"
    by (simp add: run_append sy_def completions_trace)
  have e: "length (promises (prov sy)) \<le> Suc (length (promises st)) \<and>
            count is_discovery (prov sy) \<le> Suc (count is_discovery st) \<and>
            count is_registration (prov sy) \<le> Suc (count is_registration st) \<and>
            count is_bind (prov sy) \<le> Suc (count is_bind st) \<and>
            count is_token_request (prov sy) \<le> Suc (count is_token_request st) \<and>
            (\<forall>k p. pc_at sy k = Some (Settled p) \<and> promise_at (prov sy) p = Some (Inr ()) \<longrightarrow>
                    count is_discovery (prov sy) = Suc (count is_discovery st) \<and>
                    count is_registration (prov sy) = count is_registration st + registrations_due st \<and>
                    count is_bind (prov sy) = Suc (count is_bind st) \<and>
                    count is_token_request (prov sy) = Suc (count is_token_request st))"
    if nf: "\<forall>e \<in> set es. \<not> is_Finally e"
  proof -
    have "first_flight st (start st) \<and> attempt_inv (start st)"
      using assms by (simp add: first_flight_start attempt_inv_start)
    from phase_one_run [OF this nf] have ff: "first_flight st sy" by (simp add: sy_def)
    from first_flight_bounds [OF ff] obtain a b c d where
      len: "length (promises (prov sy)) \<le> Suc (length (promises st))" and
      le: "a \<le> 1" "b \<le> 1" "c \<le> 1" "d \<le> 1" and g: "grown st a b c d (prov sy)"
      by blast
    have bounds: "count is_discovery (prov sy) \<le> Suc (count is_discovery st)"
      "count is_registration (prov sy) \<le> Suc (count is_registration st)"
      "count is_bind (prov sy) \<le> Suc (count is_bind st)"
      "count is_token_request (prov sy) \<le> Suc (count is_token_request st)"
      using le g by (simp_all add: grown_def)
    have full: "count is_discovery (prov sy) = Suc (count is_discovery st) \<and>
                count is_registration (prov sy) = count is_registration st + registrations_due st \<and>
                count is_bind (prov sy) = Suc (count is_bind st) \<and>
                count is_token_request (prov sy) = Suc (count is_token_request st)"
      if "pc_at sy k = Some (Settled p)" "promise_at (prov sy) p = Some (Inr ())" for k p
    proof -
      from ff that(1) have "progress st (prov sy) (Settled p)"
        unfolding first_flight_def by blast
      with that(2) have "grown st 1 (registrations_due st) 1 1 (prov sy)" by (simp add: progress_def)
      then show ?thesis by (simp add: grown_def)
    qed
    from len bounds full show ?thesis by blast
  qed
  from a b c d e show ?thesis unfolding sy_def by blast
qed

theorem single_flight_witness:
  "pc_at (run (demo_joined @ [Finally 0, Adopt 1]) (start demo_provider)) 0 =
     Some (Completed (Owned 0) (Inr ())) \<and>
   pc_at (run (demo_joined @ [Finally 0, Adopt 1]) (start demo_provider)) 1 =
     Some (Completed (Shared 0) (Inr ())) \<and>
   count is_discovery (prov (run (demo_joined @ [Finally 0, Adopt 1]) (start demo_provider))) = 1 \<and>
   count is_registration (prov (run (demo_joined @ [Finally 0, Adopt 1]) (start demo_provider))) = 1 \<and>
   count is_bind (prov (run (demo_joined @ [Finally 0, Adopt 1]) (start demo_provider))) = 1 \<and>
   count is_token_request (prov (run (demo_joined @ [Finally 0, Adopt 1]) (start demo_provider))) = 1 \<and>
   pc_at (exec (Resume 1) (run [Call, ReadDone 0, Resume 0, Call, ReadDone 1] (start demo_provider))) 1 =
     Some (Sharing 0)"
proof -
  note u = single_flight [OF demo_provider_idle(2), of "[Call, ReadDone 0, Resume 0, Call, ReadDone 1]"]
  have v: "pc_at (run [Call, ReadDone 0, Resume 0, Call, ReadDone 1] (start demo_provider)) 1 =
             Some (TokensRead None)"
    "\<not> has_access_token None"
    "authenticationPromise (prov (run [Call, ReadDone 0, Resume 0, Call, ReadDone 1] (start demo_provider))) =
       Some 0"
    unfolding pc_at_def demo_waiting by (simp_all add: has_access_token_def demo_in_flight_prov(1))
  from u v have "exec (Resume 1) (run [Call, ReadDone 0, Resume 0, Call, ReadDone 1] (start demo_provider)) =
      goto 1 (Sharing 0) (prov (run [Call, ReadDone 0, Resume 0, Call, ReadDone 1] (start demo_provider)))
        (run [Call, ReadDone 0, Resume 0, Call, ReadDone 1] (start demo_provider))"
    by blast
  then have sh: "pc_at (exec (Resume 1) (run [Call, ReadDone 0, Resume 0, Call, ReadDone 1] (start demo_provider))) 1 =
     Some (Sharing 0)"
    unfolding pc_at_def goto_def demo_waiting by simp
  note t = single_flight [OF demo_provider_idle(2), of demo_joined]
  have nf: "\<forall>e \<in> set demo_joined. \<not> is_Finally e" by (simp add: demo_joined_def)
  have co: "\<forall>e \<in> set [Finally 0, Adopt 1]. is_completion e" by simp
  have s: "pc_at (run demo_joined (start demo_provider)) 0 = Some (Settled 0)"
    "promise_at (prov (run demo_joined (start demo_provider))) 0 = Some (Inr ())"
    by (simp_all add: pc_at_def promise_at_def demo_joined_facts)
  have z: "trace demo_provider = []" "registrations_due demo_provider = 1"
    by (simp_all add: demo_provider_def new_provider_def registrations_due_def demo_options_def
          clientInformation_def demo_disk_def getClientInfo_def read_json_def)
  from t co have tr: "trace (prov (run (demo_joined @ [Finally 0, Adopt 1]) (start demo_provider))) =
                      trace (prov (run demo_joined (start demo_provider)))" by blast
  from t nf s have "count is_discovery (prov (run demo_joined (start demo_provider))) = Suc (count is_discovery demo_provider) \<and>
      count is_registration (prov (run demo_joined (start demo_provider))) = count is_registration demo_provider + registrations_due demo_provider \<and>
      count is_bind (prov (run demo_joined (start demo_provider))) = Suc (count is_bind demo_provider) \<and>
      count is_token_request (prov (run demo_joined (start demo_provider))) = Suc (count is_token_request demo_provider)"
    by blast
  then have n: "count is_discovery (prov (run (demo_joined @ [Finally 0, Adopt 1]) (start demo_provider))) = 1 \<and>
   count is_registration (prov (run (demo_joined @ [Finally 0, Adopt 1]) (start demo_provider))) = 1 \<and>
   count is_bind (prov (run (demo_joined @ [Finally 0, Adopt 1]) (start demo_provider))) = 1 \<and>
   count is_token_request (prov (run (demo_joined @ [Finally 0, Adopt 1]) (start demo_provider))) = 1"
    unfolding count_def tr by (simp add: z)
  have p: "pc_at (run (demo_joined @ [Finally 0, Adopt 1]) (start demo_provider)) 0 =
             Some (Completed (Owned 0) (Inr ()))"
    "pc_at (run (demo_joined @ [Finally 0, Adopt 1]) (start demo_provider)) 1 =
             Some (Completed (Shared 0) (Inr ()))"
    unfolding pc_at_def demo_joined_completed by simp_all
  from n p sh show ?thesis by blast
qed

end
